theory Spec2Isabelle
  imports Complex_Main "HOL-Library.AList" "HOL-Library.Multiset"
begin

section \<open>Strings and character classes\<close>

text \<open>
  A JavaScript string is modelled as a \<^typ>\<open>string\<close>: the list of its code units, each
  below 256. The classes below are the ones the regular expressions of
  \<^verbatim>\<open>validators.js\<close> use: \<^verbatim>\<open>\s\<close>, \<^verbatim>\<open>\d\<close>, \<^verbatim>\<open>[A-Za-z]\<close> and the line
  terminators that \<^verbatim>\<open>.\<close> does not match.
\<close>

definition isSpace :: "char \<Rightarrow> bool" where
  "isSpace c = (c \<in> set [CHR 0x09, CHR 0x0A, CHR 0x0B, CHR 0x0C, CHR 0x0D, CHR 0x20, CHR 0xA0])"

definition isLineTerminator :: "char \<Rightarrow> bool" where
  "isLineTerminator c = (c \<in> set [CHR 0x0A, CHR 0x0D])"

definition isDigit :: "char \<Rightarrow> bool" where
  "isDigit c = (c \<in> set ''0123456789'')"

definition isLetter :: "char \<Rightarrow> bool" where
  "isLetter c = (c \<in> set ''ABCDEFGHIJKLMNOPQRSTUVWXYZabcdefghijklmnopqrstuvwxyz'')"

definition digitValue :: "char \<Rightarrow> nat" where
  "digitValue c = of_char c - 48"

text \<open>\<^verbatim>\<open>String.prototype.trim\<close>: white space is removed at both ends.\<close>

definition trim :: "string \<Rightarrow> string" where
  "trim s = rev (dropWhile isSpace (rev (dropWhile isSpace s)))"

text \<open>
  \<^verbatim>\<open>parseInt(value, 10)\<close>: leading white space is skipped, a sign is read, and the
  longest prefix of decimal digits is the value; with no digit the result is NaN,
  here \<^term>\<open>None\<close>. The value is the mathematical integer that the digits denote;
  the Number that it becomes is \<open>numberOf\<close> of it.
\<close>

definition digitsValue :: "string \<Rightarrow> nat" where
  "digitsValue ds = foldl (\<lambda>acc c. 10 * acc + digitValue c) 0 ds"

definition readSign :: "string \<Rightarrow> bool \<times> string" where
  "readSign s = (case s of
       [] \<Rightarrow> (False, s)
     | c # cs \<Rightarrow> if c = CHR ''-'' then (True, cs)
                else if c = CHR ''+'' then (False, cs) else (False, s))"

definition parseInt10 :: "string \<Rightarrow> int option" where
  "parseInt10 v =
     (let (neg, r) = readSign (dropWhile isSpace v);
          z = takeWhile isDigit r
      in if z = [] then None
         else Some ((if neg then - 1 else 1) * int (digitsValue z)))"

section \<open>Record Validator (validators.js)\<close>

record validation =
  valid :: bool
  message :: string

definition passed :: validation where
  "passed = \<lparr>valid = True, message = ''''\<rparr>"

definition failed :: "string \<Rightarrow> validation" where
  "failed msg = \<lparr>valid = False, message = msg\<rparr>"

text \<open>The guard \<^verbatim>\<open>!value || value.trim().length === 0\<close> of every field validator.\<close>

definition isBlank :: "string \<Rightarrow> bool" where
  "isBlank v = (v = [] \<or> length (trim v) = 0)"

subsection \<open>The patterns\<close>

text \<open>\<^verbatim>\<open>title: /^\S(?:.*\S)?$/\<close>\<close>

definition patterns_title :: "string \<Rightarrow> bool" where
  "patterns_title s = (case s of
       [] \<Rightarrow> False
     | c # cs \<Rightarrow> \<not> isSpace c \<and>
         (cs = [] \<or> (\<not> isSpace (last cs) \<and> list_all (\<lambda>x. \<not> isLineTerminator x) (butlast cs))))"

text \<open>\<^verbatim>\<open>/\s{2,}/\<close>, unanchored: two adjacent white-space characters somewhere.\<close>

fun hasDoubleSpace :: "string \<Rightarrow> bool" where
  "hasDoubleSpace (a # b # cs) = ((isSpace a \<and> isSpace b) \<or> hasDoubleSpace (b # cs))"
| "hasDoubleSpace _ = False"

text \<open>
  \<^verbatim>\<open>category: /^[A-Za-z]+(?:[ -][A-Za-z]+)*$/\<close>, as the automaton of the expression:
  the flag says that the last character read was a letter, the only accepting state.
\<close>

fun categoryRun :: "bool \<Rightarrow> string \<Rightarrow> bool" where
  "categoryRun inWord [] = inWord"
| "categoryRun inWord (c # cs) =
     (if isLetter c then categoryRun True cs
      else if inWord \<and> (c = CHR '' '' \<or> c = CHR ''-'') then categoryRun False cs
      else False)"

definition patterns_category :: "string \<Rightarrow> bool" where
  "patterns_category s = categoryRun False s"

text \<open>\<^verbatim>\<open>pages: /^[1-9]\d*$/\<close>\<close>

definition patterns_pages :: "string \<Rightarrow> bool" where
  "patterns_pages s = (case s of
       [] \<Rightarrow> False
     | c # cs \<Rightarrow> c \<in> set ''123456789'' \<and> list_all isDigit cs)"

text \<open>\<^verbatim>\<open>date: /^\d{4}-(0[1-9]|1[0-2])-(0[1-9]|[12]\d|3[01])$/\<close>\<close>

definition patterns_date :: "string \<Rightarrow> bool" where
  "patterns_date s = (case s of
       [y1, y2, y3, y4, h1, m1, m2, h2, d1, d2] \<Rightarrow>
         isDigit y1 \<and> isDigit y2 \<and> isDigit y3 \<and> isDigit y4 \<and> h1 = CHR ''-'' \<and>
         ((m1 = CHR ''0'' \<and> m2 \<in> set ''123456789'') \<or> (m1 = CHR ''1'' \<and> m2 \<in> set ''012'')) \<and>
         h2 = CHR ''-'' \<and>
         ((d1 = CHR ''0'' \<and> d2 \<in> set ''123456789'') \<or>
          (d1 \<in> set ''12'' \<and> isDigit d2) \<or>
          (d1 = CHR ''3'' \<and> d2 \<in> set ''01''))
     | _ \<Rightarrow> False)"

subsection \<open>The field validators\<close>

definition validateTitle :: "string \<Rightarrow> validation" where
  "validateTitle v =
     (if isBlank v then failed ''Title is required''
      else if \<not> patterns_title v then failed ''Title cannot have leading/trailing spaces''
      else if hasDoubleSpace v then failed ''Title cannot have double spaces''
      else if length v < 2 then failed ''Title must be at least 2 characters''
      else passed)"

definition validateAuthor :: "string \<Rightarrow> validation" where
  "validateAuthor v =
     (if isBlank v then failed ''Author is required''
      else if \<not> patterns_category v
        then failed ''Author must contain only letters, spaces, and hyphens''
      else passed)"

text \<open>
  \<^verbatim>\<open>num <= 0\<close> is false when \<^verbatim>\<open>num\<close> is NaN, so a NaN falls through to the
  last \<^verbatim>\<open>return\<close>.
\<close>

definition validatePages :: "string \<Rightarrow> validation" where
  "validatePages v =
     (if isBlank v then failed ''Pages is required''
      else if \<not> patterns_pages v then failed ''Pages must be a positive integer''
      else (case parseInt10 v of
              None \<Rightarrow> passed
            | Some num \<Rightarrow> if num \<le> 0 then failed ''Pages must be greater than 0'' else passed))"

definition validateTag :: "string \<Rightarrow> validation" where
  "validateTag v =
     (if isBlank v then failed ''Tag is required''
      else if \<not> patterns_category v
        then failed ''Tag must contain only letters, spaces, and hyphens''
      else passed)"

text \<open>
  \<^verbatim>\<open>new Date(value).getTime()\<close> belongs to the host, not to the repository: it is the
  parameter \<open>getTime\<close>, the time value of the parsed string, \<^term>\<open>None\<close> for NaN.
\<close>

definition validateDate :: "(string \<Rightarrow> int option) \<Rightarrow> string \<Rightarrow> validation" where
  "validateDate getTime v =
     (if isBlank v then failed ''Date is required''
      else if \<not> patterns_date v then failed ''Date must be in YYYY-MM-DD format''
      else if getTime v = None then failed ''Invalid date''
      else passed)"

subsection \<open>validateBook\<close>

text \<open>
  The candidate is the \<^verbatim>\<open>bookData\<close> object that \<^verbatim>\<open>handleFormSubmit\<close> builds: the value
  of each form input, always a string (its \<^verbatim>\<open>notes\<close>, which no validator reads, are
  left out). The \<^verbatim>\<open>errors\<close> object is an association list
  in insertion order; an assignment \<^verbatim>\<open>errors.f = m\<close> is \<^const>\<open>AList.update\<close>, which
  replaces the value of a key that is present and appends a new key.
\<close>

record candidate =
  title :: string
  author :: string
  pages :: string
  tag :: string
  date :: string

record book_validation =
  book_valid :: bool
  book_errors :: "(string \<times> string) list"

definition validateBook :: "(string \<Rightarrow> int option) \<Rightarrow> candidate \<Rightarrow> book_validation" where
  "validateBook getTime book =
     (let errors = [];
          titleValidation = validateTitle (title book);
          errors = (if \<not> valid titleValidation
                    then AList.update ''title'' (message titleValidation) errors else errors);
          authorValidation = validateAuthor (author book);
          errors = (if \<not> valid authorValidation
                    then AList.update ''author'' (message authorValidation) errors else errors);
          pagesValidation = validatePages (pages book);
          errors = (if \<not> valid pagesValidation
                    then AList.update ''pages'' (message pagesValidation) errors else errors);
          tagValidation = validateTag (tag book);
          errors = (if \<not> valid tagValidation
                    then AList.update ''tag'' (message tagValidation) errors else errors);
          dateValidation = validateDate getTime (date book);
          errors = (if \<not> valid dateValidation
                    then AList.update ''date'' (message dateValidation) errors else errors)
      in \<lparr>book_valid = (length (map fst errors) = 0), book_errors = errors\<rparr>)"

text \<open>
  For the statement of the aggregation: the validator that \<^verbatim>\<open>validateBook\<close> runs on
  a field, by the field's name.
\<close>

definition fieldNames :: "string list" where
  "fieldNames = [''title'', ''author'', ''pages'', ''tag'', ''date'']"

definition fieldValidation :: "(string \<Rightarrow> int option) \<Rightarrow> candidate \<Rightarrow> string \<Rightarrow> validation" where
  "fieldValidation getTime book f =
     (if f = ''title'' then validateTitle (title book)
      else if f = ''author'' then validateAuthor (author book)
      else if f = ''pages'' then validatePages (pages book)
      else if f = ''tag'' then validateTag (tag book)
      else validateDate getTime (date book))"

subsection \<open>Calendar dates, in the words of the specification\<close>

text \<open>
  The specification describes the date pattern as a four-digit year, a two-digit month
  from 01 to 12 and a two-digit day from 01 to 31, and says that the string must denote
  an existing calendar date. These definitions follow those words, to be compared with
  \<^const>\<open>patterns_date\<close> and \<^const>\<open>validateDate\<close>.
\<close>

definition yearOf :: "string \<Rightarrow> nat" where
  "yearOf s = digitsValue (take 4 s)"

definition monthOf :: "string \<Rightarrow> nat" where
  "monthOf s = digitsValue (take 2 (drop 5 s))"

definition dayOf :: "string \<Rightarrow> nat" where
  "dayOf s = digitsValue (take 2 (drop 8 s))"

definition matchesDateFormat :: "string \<Rightarrow> bool" where
  "matchesDateFormat s =
     (length s = 10 \<and> list_all isDigit (take 4 s) \<and> s ! 4 = CHR ''-'' \<and>
      list_all isDigit (take 2 (drop 5 s)) \<and> s ! 7 = CHR ''-'' \<and>
      list_all isDigit (take 2 (drop 8 s)) \<and>
      1 \<le> monthOf s \<and> monthOf s \<le> 12 \<and> 1 \<le> dayOf s \<and> dayOf s \<le> 31)"

definition isLeapYear :: "nat \<Rightarrow> bool" where
  "isLeapYear y = (y mod 4 = 0 \<and> (y mod 100 \<noteq> 0 \<or> y mod 400 = 0))"

definition daysInMonth :: "nat \<Rightarrow> nat \<Rightarrow> nat" where
  "daysInMonth y m =
     (if m = 2 then (if isLeapYear y then 29 else 28)
      else if m \<in> set [4, 6, 9, 11] then 30 else 31)"

definition denotesRealDate :: "string \<Rightarrow> bool" where
  "denotesRealDate s = (matchesDateFormat s \<and> dayOf s \<le> daysInMonth (yearOf s) (monthOf s))"

subsection \<open>Two hosts\<close>

text \<open>
  What \<^verbatim>\<open>new Date("2025-02-30")\<close> is depends on the host: one that checks the day
  against the month yields an invalid date (NaN); V8 (Node.js, Chrome) only checks the
  ranges of the fields (month 1 to 12, day 1 to 31) and carries the day into the next
  month. Both are given here for date-only strings, as the number of milliseconds since
  1970-01-01 UTC: \<open>strictDate\<close> is the first, \<open>rollingDate\<close> is V8.
\<close>

definition daysBeforeYear :: "nat \<Rightarrow> nat" where
  "daysBeforeYear y = 365 * y + ((y + 3) div 4 - (y + 99) div 100 + (y + 399) div 400)"

definition daysBeforeMonth :: "nat \<Rightarrow> nat \<Rightarrow> nat" where
  "daysBeforeMonth y m = sum_list (map (daysInMonth y) [1..<m])"

definition timeValue :: "string \<Rightarrow> int" where
  "timeValue s =
     (int (daysBeforeYear (yearOf s) + daysBeforeMonth (yearOf s) (monthOf s) + (dayOf s - 1))
        - 719528) * 86400000"

definition strictDate :: "string \<Rightarrow> int option" where
  "strictDate s = (if denotesRealDate s then Some (timeValue s) else None)"

definition rollingDate :: "string \<Rightarrow> int option" where
  "rollingDate s = (if matchesDateFormat s then Some (timeValue s) else None)"

section \<open>Numbers\<close>

text \<open>
  A JavaScript Number is an IEEE 754 double. \<open>Finite x\<close> is the finite double whose
  exact value is \<open>x\<close> (the sign of zero is not kept). \<open>toDouble x\<close> is the Number
  value of the real number \<open>x\<close>, as ECMAScript defines it: the double nearest to \<open>x\<close>,
  the one with the even significand when two are equally near, and an infinity from
  \<open>2^1024 - 2^970\<close> on. A double has a significand of 53 bits, so in the binade
  \<open>2^e \<le> |x| < 2^(e+1)\<close> the doubles are the multiples of \<open>2^(e-52)\<close>; below
  \<open>2^-1022\<close> they are the multiples of \<open>2^-1074\<close>.
\<close>

datatype number = NaN | PosInf | NegInf | Finite rat

fun log2floor :: "nat \<Rightarrow> nat" where
  "log2floor n = (if n < 2 then 0 else Suc (log2floor (n div 2)))"

declare log2floor.simps [simp del]

text \<open>The \<open>e\<close> with \<open>2^e \<le> x < 2^(e+1)\<close>, for a positive \<open>x\<close>.\<close>

definition binade :: "rat \<Rightarrow> int" where
  "binade x = (if 1 \<le> x then int (log2floor (nat \<lfloor>x\<rfloor>))
               else - int (Suc (log2floor (nat (\<lceil>1 / x\<rceil> - 1)))))"

definition roundHalfEven :: "rat \<Rightarrow> int" where
  "roundHalfEven r =
     (let f = \<lfloor>r\<rfloor>; d = r - of_int f
      in if d < 1 / 2 then f else if 1 / 2 < d then f + 1 else if even f then f else f + 1)"

definition toDouble :: "rat \<Rightarrow> number" where
  "toDouble x =
     (if x = 0 then Finite 0
      else (let ulp = 2 powi (max (binade \<bar>x\<bar> - 52) (- 1074));
                y = of_int (roundHalfEven (\<bar>x\<bar> / ulp)) * ulp
            in if 2 ^ 1024 \<le> y then (if 0 < x then PosInf else NegInf)
               else Finite (if 0 < x then y else - y)))"

text \<open>
  The arithmetic of the source: \<^verbatim>\<open>a + b\<close>, \<^verbatim>\<open>a - b\<close>, \<^verbatim>\<open>a / n\<close> for an array length
  \<open>n\<close>, and \<^verbatim>\<open>Math.round\<close>. The exact result is rounded to a double; NaN and the
  infinities propagate as IEEE 754 says. \<^verbatim>\<open>Math.round\<close> yields the nearest integer, the
  greater of two that are equally near, which is a double whenever its argument is.
\<close>

fun numberPlus :: "number \<Rightarrow> number \<Rightarrow> number" where
  "numberPlus (Finite x) (Finite y) = toDouble (x + y)"
| "numberPlus NaN _ = NaN"
| "numberPlus _ NaN = NaN"
| "numberPlus PosInf NegInf = NaN"
| "numberPlus NegInf PosInf = NaN"
| "numberPlus PosInf _ = PosInf"
| "numberPlus _ PosInf = PosInf"
| "numberPlus NegInf _ = NegInf"
| "numberPlus _ NegInf = NegInf"

fun negated :: "number \<Rightarrow> number" where
  "negated NaN = NaN"
| "negated PosInf = NegInf"
| "negated NegInf = PosInf"
| "negated (Finite x) = Finite (- x)"

definition numberMinus :: "number \<Rightarrow> number \<Rightarrow> number" where
  "numberMinus a b = numberPlus a (negated b)"

definition dividedBy :: "number \<Rightarrow> nat \<Rightarrow> number" where
  "dividedBy a n =
     (case a of
        Finite x \<Rightarrow>
          if n = 0 then (if x = 0 then NaN else if 0 < x then PosInf else NegInf)
          else toDouble (x / of_nat n)
      | _ \<Rightarrow> a)"

definition Math_round :: "number \<Rightarrow> number" where
  "Math_round a = (case a of Finite x \<Rightarrow> Finite (of_int \<lfloor>x + 1 / 2\<rfloor>) | _ \<Rightarrow> a)"

text \<open>
  What \<^verbatim>\<open>Array.prototype.sort\<close> reads from the Number that a comparator returns: its
  sign, with NaN counted as \<open>+0\<close>.
\<close>

definition orderOf :: "number \<Rightarrow> int" where
  "orderOf v =
     (case v of
        NaN \<Rightarrow> 0
      | PosInf \<Rightarrow> 1
      | NegInf \<Rightarrow> - 1
      | Finite x \<Rightarrow> if x < 0 then - 1 else if 0 < x then 1 else 0)"

section \<open>JavaScript values\<close>

text \<open>
  The values that book objects and parsed JSON are made of. \<open>Num n\<close> is the Number
  whose value is the integer \<open>n\<close>, so \<open>n\<close> is an integer that a double holds
  (Numbers with a fraction are not among the values); an object is the list of its own
  properties in insertion order. Reading a property that is absent yields
  \<^verbatim>\<open>undefined\<close>, as in the source.
\<close>

datatype jsval =
    Undefined
  | Null
  | Bool bool
  | Num int
  | Str string
  | Arr "jsval list"
  | Obj "(string \<times> jsval) list"

type_synonym object = "(string \<times> jsval) list"

definition getProp :: "object \<Rightarrow> string \<Rightarrow> jsval" where
  "getProp obj k = (case map_of obj k of None \<Rightarrow> Undefined | Some v \<Rightarrow> v)"

text \<open>Truthiness: what \<^verbatim>\<open>!v\<close>, \<^verbatim>\<open>v || w\<close> and \<^verbatim>\<open>if (v)\<close> test.\<close>

fun truthy :: "jsval \<Rightarrow> bool" where
  "truthy Undefined = False"
| "truthy Null = False"
| "truthy (Bool b) = b"
| "truthy (Num n) = (n \<noteq> 0)"
| "truthy (Str s) = (s \<noteq> [])"
| "truthy (Arr _) = True"
| "truthy (Obj _) = True"

definition orElse :: "jsval \<Rightarrow> jsval \<Rightarrow> jsval" where
  "orElse v w = (if truthy v then v else w)"

text \<open>\<^verbatim>\<open>ToString\<close>, which \<^verbatim>\<open>parseInt\<close> and \<^verbatim>\<open>RegExp.prototype.test\<close> apply to their argument.\<close>

fun showNat :: "nat \<Rightarrow> string" where
  "showNat n = (if n < 10 then [char_of (48 + n)] else showNat (n div 10) @ [char_of (48 + n mod 10)])"

definition showInt :: "int \<Rightarrow> string" where
  "showInt i = (if i < 0 then CHR ''-'' # showNat (nat (- i)) else showNat (nat i))"

text \<open>
  \<^verbatim>\<open>Number::toString\<close> of an integer: decimal digits below \<open>10^21\<close>, and from there
  on exponent notation with the fewest significant digits that still read back as the
  same Number (the nearest such decimal, the even one of two). \<open>decimalWith k x\<close> is
  that decimal with \<open>k\<close> significant digits, if there is one.
\<close>

definition readsBackAs :: "nat \<Rightarrow> nat \<Rightarrow> bool" where
  "readsBackAs x v = (toDouble (of_nat v) = toDouble (of_nat x))"

definition decimalWith :: "nat \<Rightarrow> nat \<Rightarrow> nat option" where
  "decimalWith k x =
     (let p = 10 ^ (length (showNat x) - k); lo = (x div p) * p; hi = lo + p
      in if readsBackAs x lo \<and> readsBackAs x hi
         then Some (if x - lo < hi - x then lo else if hi - x < x - lo then hi
                    else if even (x div p) then lo else hi)
         else if readsBackAs x lo then Some lo
         else if readsBackAs x hi then Some hi
         else None)"

fun shortestDecimal :: "nat \<Rightarrow> nat \<Rightarrow> nat \<Rightarrow> nat" where
  "shortestDecimal 0 k x = x"
| "shortestDecimal (Suc f) k x =
     (case decimalWith k x of Some v \<Rightarrow> v | None \<Rightarrow> shortestDecimal f (Suc k) x)"

definition exponential :: "nat \<Rightarrow> string" where
  "exponential v =
     (let ds = rev (dropWhile (\<lambda>c. c = CHR ''0'') (rev (showNat v)))
      in hd ds # (if length ds = 1 then [] else CHR ''.'' # tl ds) @ ''e+'' @
         showNat (length (showNat v) - 1))"

definition numberToString :: "int \<Rightarrow> string" where
  "numberToString n =
     (if \<bar>n\<bar> < 10 ^ 21 then showInt n
      else (if n < 0 then ''-'' else []) @ exponential (shortestDecimal 17 1 (nat \<bar>n\<bar>)))"

fun joinWith :: "string \<Rightarrow> string list \<Rightarrow> string" where
  "joinWith sep [] = []"
| "joinWith sep [x] = x"
| "joinWith sep (x # y # ys) = x @ sep @ joinWith sep (y # ys)"

fun toString :: "jsval \<Rightarrow> string"
  and elementString :: "jsval \<Rightarrow> string" where
  "toString Undefined = ''undefined''"
| "toString Null = ''null''"
| "toString (Bool b) = (if b then ''true'' else ''false'')"
| "toString (Num n) = numberToString n"
| "toString (Str s) = s"
| "toString (Arr vs) = joinWith '','' (map elementString vs)"
| "toString (Obj _) = ''[object Object]''"
| "elementString Undefined = []"
| "elementString Null = []"
| "elementString (Bool b) = (if b then ''true'' else ''false'')"
| "elementString (Num n) = numberToString n"
| "elementString (Str s) = s"
| "elementString (Arr vs) = joinWith '','' (map elementString vs)"
| "elementString (Obj _) = ''[object Object]''"

text \<open>
  \<^verbatim>\<open>parseInt(value)\<close> with no radix: as \<^const>\<open>parseInt10\<close>, but after the sign a prefix
  \<^verbatim>\<open>0x\<close> or \<^verbatim>\<open>0X\<close> switches to radix 16.
\<close>

definition isHexDigit :: "char \<Rightarrow> bool" where
  "isHexDigit c = (c \<in> set ''0123456789abcdefABCDEF'')"

definition hexValue :: "char \<Rightarrow> nat" where
  "hexValue c =
     (if isDigit c then of_char c - 48
      else if c \<in> set ''abcdef'' then of_char c - 87
      else of_char c - 55)"

definition hexDigitsValue :: "string \<Rightarrow> nat" where
  "hexDigitsValue ds = foldl (\<lambda>acc c. 16 * acc + hexValue c) 0 ds"

definition parseIntString :: "string \<Rightarrow> int option" where
  "parseIntString v =
     (let (neg, r) = readSign (dropWhile isSpace v);
          sign = (if neg then - 1 else 1)
      in if take 2 r = ''0x'' \<or> take 2 r = ''0X''
         then (let z = takeWhile isHexDigit (drop 2 r)
               in if z = [] then None else Some (sign * int (hexDigitsValue z)))
         else (let z = takeWhile isDigit r
               in if z = [] then None else Some (sign * int (digitsValue z))))"

definition parseInt :: "jsval \<Rightarrow> int option" where
  "parseInt v = parseIntString (toString v)"

text \<open>
  The Number that \<^verbatim>\<open>parseInt\<close> returns for the integer it has read (\<^term>\<open>None\<close>
  when it has read no digit). ECMAScript lets an implementation approximate a decimal
  integer of more than 20 significant digits; V8 rounds it correctly, as here.
\<close>

definition numberOf :: "int option \<Rightarrow> number" where
  "numberOf r = (case r of None \<Rightarrow> NaN | Some k \<Rightarrow> toDouble (of_int k))"

section \<open>Aggregator (ui.js)\<close>

text \<open>
  \<^verbatim>\<open>books.reduce((sum, book) => sum + parseInt(book.pages || 0), 0)\<close>, in the
  arithmetic of Numbers.
\<close>

definition addPages :: "number \<Rightarrow> object \<Rightarrow> number" where
  "addPages acc book =
     numberPlus acc (numberOf (parseInt (orElse (getProp book ''pages'') (Num 0))))"

definition totalPages :: "object list \<Rightarrow> number" where
  "totalPages bs = foldl addPages (Finite 0) bs"

definition calculateAverageBookLength :: "object list \<Rightarrow> number" where
  "calculateAverageBookLength bs =
     (if length bs = 0 then Finite 0
      else Math_round (dividedBy (totalPages bs) (length bs)))"

text \<open>The integer that \<^verbatim>\<open>parseInt\<close> reads from the pages of a book, 0 when it reads none.\<close>

definition pagesOf :: "object \<Rightarrow> int" where
  "pagesOf book = (case parseInt (orElse (getProp book ''pages'') (Num 0)) of None \<Rightarrow> 0 | Some p \<Rightarrow> p)"

section \<open>Repository (state.js)\<close>

text \<open>
  Arrays and book objects are mutable and shared, so they live in a store and are
  handled by reference. The module variable \<^verbatim>\<open>books\<close> holds the reference of the
  canonical array; every reference at or above \<open>top\<close> is unallocated. \<open>saved\<close> is
  what \<^verbatim>\<open>localStorage\<close> holds under the key of the collection: the value whose
  \<^verbatim>\<open>JSON.stringify\<close> text \<^verbatim>\<open>saveBooks\<close> wrote last.
\<close>

type_synonym ref = nat

record state =
  objects :: "ref \<Rightarrow> object option"
  arrays :: "ref \<Rightarrow> ref list option"
  top :: ref
  books :: ref
  saved :: "object list option"

definition objectAt :: "state \<Rightarrow> ref \<Rightarrow> object" where
  "objectAt st r = (case objects st r of Some obj \<Rightarrow> obj | None \<Rightarrow> [])"

definition arrayAt :: "state \<Rightarrow> ref \<Rightarrow> ref list" where
  "arrayAt st a = (case arrays st a of Some xs \<Rightarrow> xs | None \<Rightarrow> [])"

definition newObject :: "object \<Rightarrow> state \<Rightarrow> ref \<times> state" where
  "newObject obj st = (top st, st\<lparr>objects := (objects st)(top st \<mapsto> obj), top := Suc (top st)\<rparr>)"

definition newArray :: "ref list \<Rightarrow> state \<Rightarrow> ref \<times> state" where
  "newArray xs st = (top st, st\<lparr>arrays := (arrays st)(top st \<mapsto> xs), top := Suc (top st)\<rparr>)"

text \<open>The canonical collection as a value: the records of the array, in order.\<close>

definition collection :: "state \<Rightarrow> object list" where
  "collection st = map (objectAt st) (arrayAt st (books st))"

text \<open>\<^verbatim>\<open>saveBooks(books)\<close>, called on the canonical array.\<close>

definition saveBooks :: "state \<Rightarrow> state" where
  "saveBooks st = st\<lparr>saved := Some (collection st)\<rparr>"

text \<open>\<^verbatim>\<open>getBooks\<close>: \<^verbatim>\<open>[...books]\<close> is a new array with the same elements.\<close>

definition getBooks :: "state \<Rightarrow> ref \<times> state" where
  "getBooks st = newArray (arrayAt st (books st)) st"

text \<open>\<^verbatim>\<open>Array.prototype.findIndex\<close>; the result \<^verbatim>\<open>-1\<close> is \<^term>\<open>None\<close>.\<close>

fun findIndex :: "('a \<Rightarrow> bool) \<Rightarrow> 'a list \<Rightarrow> nat option" where
  "findIndex p [] = None"
| "findIndex p (x # xs) = (if p x then Some 0 else map_option Suc (findIndex p xs))"

definition getBookById :: "string \<Rightarrow> state \<Rightarrow> ref option" where
  "getBookById bookId st =
     List.find (\<lambda>r. getProp (objectAt st r) ''id'' = Str bookId) (arrayAt st (books st))"

text \<open>
  An object literal is built left to right: a spread \<^verbatim>\<open>...src\<close> assigns each property
  of \<open>src\<close> in turn, and an assignment keeps the place of a key that is present.
\<close>

definition spread :: "object \<Rightarrow> object \<Rightarrow> object" where
  "spread src target = foldl (\<lambda>t (k, v). AList.update k v t) target src"

text \<open>
  \<^verbatim>\<open>updateBook(id, updates)\<close>; \<open>now\<close> is \<^verbatim>\<open>new Date().toISOString()\<close>, read from the
  host's clock.
\<close>

definition updateBook :: "string \<Rightarrow> string \<Rightarrow> object \<Rightarrow> state \<Rightarrow> ref option \<times> state" where
  "updateBook now bookId updates st =
     (let bs = arrayAt st (books st) in
      case findIndex (\<lambda>r. getProp (objectAt st r) ''id'' = Str bookId) bs of
        None \<Rightarrow> (None, st)
      | Some index \<Rightarrow>
          (let old = objectAt st (bs ! index);
               new = AList.update ''updatedAt'' (Str now)
                      (AList.update ''createdAt'' (getProp old ''createdAt'')
                        (AList.update ''id'' (getProp old ''id'')
                          (spread updates (spread old []))));
               (r, st1) = newObject new st;
               st2 = st1\<lparr>arrays := (arrays st1)(books st1 \<mapsto> bs[index := r])\<rparr>
           in (Some r, saveBooks st2)))"

text \<open>The allocator's invariant: the canonical array and its elements are allocated.\<close>

definition wellFormed :: "state \<Rightarrow> bool" where
  "wellFormed st = (books st < top st \<and> (\<forall>r \<in> set (arrayAt st (books st)). r < top st))"

subsection \<open>What a caller can do with a snapshot\<close>

text \<open>
  A caller that holds the array returned by \<^verbatim>\<open>getBooks\<close> can change the array
  itself (\<^verbatim>\<open>push\<close>, \<^verbatim>\<open>pop\<close>, \<^verbatim>\<open>splice\<close>, \<^verbatim>\<open>sort\<close>, an assignment to an index or to
  \<^verbatim>\<open>length\<close>: the elements become a function of what they were), or write a property
  of one of its elements, \<^verbatim>\<open>snapshot[i].k = v\<close>.
\<close>

datatype mutation =
    ArrayWrite "ref list \<Rightarrow> ref list"
  | FieldWrite nat string jsval

fun mutate :: "ref \<Rightarrow> state \<Rightarrow> mutation \<Rightarrow> state" where
  "mutate snap st (ArrayWrite f) = st\<lparr>arrays := (arrays st)(snap \<mapsto> f (arrayAt st snap))\<rparr>"
| "mutate snap st (FieldWrite i k v) =
     (let xs = arrayAt st snap in
      if i < length xs
      then st\<lparr>objects := (objects st)(xs ! i \<mapsto> AList.update k v (objectAt st (xs ! i)))\<rparr>
      else st)"

definition mutateAll :: "ref \<Rightarrow> mutation list \<Rightarrow> state \<Rightarrow> state" where
  "mutateAll snap ms st = foldl (mutate snap) st ms"

definition arrayWrites :: "mutation list \<Rightarrow> bool" where
  "arrayWrites ms = list_all (\<lambda>m. case m of ArrayWrite _ \<Rightarrow> True | FieldWrite _ _ _ \<Rightarrow> False) ms"

text \<open>A repository with one book, for the examples.\<close>

definition dune :: object where
  "dune = [(''id'', Str ''book_1''), (''title'', Str ''Dune''), (''author'', Str ''Frank Herbert''),
           (''pages'', Str ''688''), (''tag'', Str ''Sci-Fi''), (''date'', Str ''2025-02-28''),
           (''createdAt'', Str ''2025-03-01T10:00:00.000Z''),
           (''updatedAt'', Str ''2025-03-01T10:00:00.000Z'')]"

definition oneBook :: state where
  "oneBook = \<lparr>objects = Map.empty(0 \<mapsto> dune), arrays = Map.empty(1 \<mapsto> [0]), top = 2,
              books = 1, saved = Some [dune]\<rparr>"

section \<open>Import/Export Codec (storage.js)\<close>


text \<open>The messages pushed on \<^verbatim>\<open>result.errors\<close>, with the values interpolated in them.\<close>

datatype import_error =
    NotAnArray
  | MissingField nat string
  | DuplicateId jsval
  | InvalidPages nat jsval
  | InvalidDateFormat nat jsval
  | InvalidJSON string

record import_result =
  import_valid :: bool
  import_data :: "jsval option"
  import_errors :: "import_error list"

definition requiredFields :: "string list" where
  "requiredFields = [''title'', ''author'', ''pages'', ''tag'', ''date'']"

text \<open>
  \<^verbatim>\<open>book[field]\<close> on an element that is not \<^verbatim>\<open>null\<close>: a property of an object, and
  \<^verbatim>\<open>undefined\<close> on a number, a string, a boolean or an array (none of the names read
  here is a property of theirs).
\<close>

definition field :: "jsval \<Rightarrow> string \<Rightarrow> jsval" where
  "field book k = (case book of Obj kvs \<Rightarrow> getProp kvs k | _ \<Rightarrow> Undefined)"

text \<open>
  \<^verbatim>\<open>Set.prototype.has\<close> compares with SameValueZero: primitives by value, arrays and
  objects by identity. The arrays and objects of a parsed text are all distinct, and an
  id is looked up before it is added, so an array or object is never found.
\<close>

definition sameValueZero :: "jsval \<Rightarrow> jsval \<Rightarrow> bool" where
  "sameValueZero a b = (case a of Arr _ \<Rightarrow> False | Obj _ \<Rightarrow> False | _ \<Rightarrow> a = b)"

text \<open>\<^verbatim>\<open>/^\d{4}-\d{2}-\d{2}$/\<close>\<close>

definition importDatePattern :: "string \<Rightarrow> bool" where
  "importDatePattern s = (case s of
       [y1, y2, y3, y4, h1, m1, m2, h2, d1, d2] \<Rightarrow>
         isDigit y1 \<and> isDigit y2 \<and> isDigit y3 \<and> isDigit y4 \<and> h1 = CHR ''-'' \<and>
         isDigit m1 \<and> isDigit m2 \<and> h2 = CHR ''-'' \<and> isDigit d1 \<and> isDigit d2
     | _ \<Rightarrow> False)"

text \<open>What one turn of the loop pushes for the element at index \<open>i\<close>, given the ids seen.\<close>

definition bookErrors :: "nat \<Rightarrow> jsval \<Rightarrow> jsval list \<Rightarrow> import_error list" where
  "bookErrors i book ids =
     map (MissingField i) (filter (\<lambda>f. \<not> truthy (field book f)) requiredFields) @
     (if truthy (field book ''id'') \<and> list_ex (\<lambda>x. sameValueZero x (field book ''id'')) ids
      then [DuplicateId (field book ''id'')] else []) @
     (if truthy (field book ''pages'') \<and> parseInt (field book ''pages'') = None
      then [InvalidPages i (field book ''pages'')] else []) @
     (if truthy (field book ''date'') \<and> \<not> importDatePattern (toString (field book ''date''))
      then [InvalidDateFormat i (field book ''date'')] else [])"

text \<open>
  The loop over the elements. Reading a property of \<^verbatim>\<open>null\<close> throws a \<^verbatim>\<open>TypeError\<close>:
  the loop stops with the errors pushed so far, and the flag tells the \<^verbatim>\<open>catch\<close>.
\<close>

fun checkBooks :: "nat \<Rightarrow> jsval list \<Rightarrow> import_error list \<Rightarrow> jsval list \<Rightarrow> import_error list \<times> bool" where
  "checkBooks i [] errors ids = (errors, False)"
| "checkBooks i (book # rest) errors ids =
     (if book = Null \<or> book = Undefined then (errors, True)
      else checkBooks (Suc i) rest (errors @ bookErrors i book ids)
             (if truthy (field book ''id'') then ids @ [field book ''id''] else ids))"

definition typeErrorMessage :: string where
  "typeErrorMessage = ''Cannot read properties of null''"

definition importFromJSON :: "(string \<Rightarrow> string + jsval) \<Rightarrow> string \<Rightarrow> import_result" where
  "importFromJSON JSON_parse jsonString =
     (case JSON_parse jsonString of
        Inl msg \<Rightarrow> \<lparr>import_valid = False, import_data = None, import_errors = [InvalidJSON msg]\<rparr>
      | Inr parsed \<Rightarrow>
          (case parsed of
             Arr elements \<Rightarrow>
               (case checkBooks 0 elements [] [] of
                  (errors, thrown) \<Rightarrow>
                    if thrown
                    then \<lparr>import_valid = False, import_data = None,
                           import_errors = errors @ [InvalidJSON typeErrorMessage]\<rparr>
                    else if length errors > 0
                    then \<lparr>import_valid = False, import_data = None, import_errors = errors\<rparr>
                    else \<lparr>import_valid = True, import_data = Some parsed, import_errors = errors\<rparr>)
           | _ \<Rightarrow> \<lparr>import_valid = False, import_data = None, import_errors = [NotAnArray]\<rparr>))"

text \<open>
  A record whose required fields are strings that \<^const>\<open>validateBook\<close> accepts: what the
  form handler lets into the collection.
\<close>

fun isStr :: "jsval \<Rightarrow> bool" where
  "isStr (Str _) = True"
| "isStr _ = False"

fun strOf :: "jsval \<Rightarrow> string" where
  "strOf (Str s) = s"
| "strOf _ = []"


subsection \<open>A host codec\<close>

text \<open>
  An instance of the two host functions for the examples: \<^verbatim>\<open>JSON.stringify(v, null, 2)\<close>
  and \<^verbatim>\<open>JSON.parse\<close> on the values of \<^typ>\<open>jsval\<close> (numbers are integers; of the
  escapes only those of the quote, the backslash, the line feed, the carriage return and the
  tab are written and read). A property whose value is \<^verbatim>\<open>undefined\<close> is not written;
  an \<^verbatim>\<open>undefined\<close> element is written as \<^verbatim>\<open>null\<close>.
\<close>

definition escapeChar :: "char \<Rightarrow> string" where
  "escapeChar c =
     (if c = CHR 0x22 then [CHR 0x5C, CHR 0x22]
      else if c = CHR 0x5C then [CHR 0x5C, CHR 0x5C]
      else if c = CHR 0x0A then [CHR 0x5C, CHR ''n'']
      else if c = CHR 0x0D then [CHR 0x5C, CHR ''r'']
      else if c = CHR 0x09 then [CHR 0x5C, CHR ''t'']
      else [c])"

definition quoted :: "string \<Rightarrow> string" where
  "quoted s = CHR 0x22 # concat (map escapeChar s) @ [CHR 0x22]"

fun stringifyValue :: "string \<Rightarrow> jsval \<Rightarrow> string"
  and stringifyElements :: "string \<Rightarrow> jsval list \<Rightarrow> string list"
  and stringifyMembers :: "string \<Rightarrow> (string \<times> jsval) list \<Rightarrow> string list" where
  "stringifyValue ind Undefined = ''null''"
| "stringifyValue ind Null = ''null''"
| "stringifyValue ind (Bool b) = (if b then ''true'' else ''false'')"
| "stringifyValue ind (Num n) = showInt n"
| "stringifyValue ind (Str s) = quoted s"
| "stringifyValue ind (Arr vs) =
     (if vs = [] then ''[]''
      else CHR ''['' # CHR 0x0A # joinWith [CHR '','', CHR 0x0A] (stringifyElements (ind @ ''  '') vs)
           @ CHR 0x0A # ind @ '']'')"
| "stringifyValue ind (Obj kvs) =
     (if stringifyMembers (ind @ ''  '') kvs = [] then ''{}''
      else CHR ''{'' # CHR 0x0A # joinWith [CHR '','', CHR 0x0A] (stringifyMembers (ind @ ''  '') kvs)
           @ CHR 0x0A # ind @ ''}'')"
| "stringifyElements ind [] = []"
| "stringifyElements ind (v # vs) = (ind @ stringifyValue ind v) # stringifyElements ind vs"
| "stringifyMembers ind [] = []"
| "stringifyMembers ind ((k, v) # kvs) =
     (if v = Undefined then stringifyMembers ind kvs
      else (ind @ quoted k @ '': '' @ stringifyValue ind v) # stringifyMembers ind kvs)"


definition skipSpace :: "string \<Rightarrow> string" where
  "skipSpace s = dropWhile (\<lambda>c. c \<in> set [CHR 0x20, CHR 0x0A, CHR 0x0D, CHR 0x09]) s"

text \<open>The characters of a string literal after its opening quote, and the rest of the text.\<close>

fun parseChars :: "string \<Rightarrow> (string \<times> string) option" where
  "parseChars [] = None"
| "parseChars (c # cs) =
     (if c = CHR 0x22 then Some ([], cs)
      else if c = CHR 0x5C then
        (case cs of
           [] \<Rightarrow> None
         | e # rest \<Rightarrow>
             (if e \<in> set [CHR 0x22, CHR 0x5C, CHR ''n'', CHR ''r'', CHR ''t'']
              then map_option
                     (\<lambda>(s, r). ((if e = CHR ''n'' then CHR 0x0A else if e = CHR ''r'' then CHR 0x0D
                                  else if e = CHR ''t'' then CHR 0x09 else e) # s, r))
                     (parseChars rest)
              else None))
      else map_option (\<lambda>(s, r). (c # s, r)) (parseChars cs))"

definition parseNumber :: "string \<Rightarrow> (jsval \<times> string) option" where
  "parseNumber s =
     (let (neg, r) = (case s of c # cs \<Rightarrow> if c = CHR ''-'' then (True, cs) else (False, s)
                                | [] \<Rightarrow> (False, s));
          z = takeWhile isDigit r
      in if z = [] \<or> (hd z = CHR ''0'' \<and> length z > 1) then None
         else Some (Num ((if neg then - 1 else 1) * int (digitsValue z)), dropWhile isDigit r))"

text \<open>
  A member in front of the members parsed after it: a key that occurs again keeps its
  first place and takes its last value.
\<close>

definition addMember :: "string \<Rightarrow> jsval \<Rightarrow> (string \<times> jsval) list \<Rightarrow> (string \<times> jsval) list" where
  "addMember k v kvs =
     (case map_of kvs k of
        None \<Rightarrow> (k, v) # kvs
      | Some w \<Rightarrow> (k, w) # AList.delete k kvs)"

text \<open>The parser proper; the first argument bounds the number of nested calls.\<close>

fun parseValue :: "nat \<Rightarrow> string \<Rightarrow> (jsval \<times> string) option"
  and parseElements :: "nat \<Rightarrow> string \<Rightarrow> (jsval list \<times> string) option"
  and parseMembers :: "nat \<Rightarrow> string \<Rightarrow> ((string \<times> jsval) list \<times> string) option" where
  "parseValue 0 s = None"
| "parseValue (Suc n) s =
     (case skipSpace s of
        [] \<Rightarrow> None
      | c # cs \<Rightarrow>
          if c = CHR ''['' then
            (case skipSpace cs of
               [] \<Rightarrow> None
             | d # ds \<Rightarrow> if d = CHR '']'' then Some (Arr [], ds)
                         else map_option (\<lambda>(vs, r). (Arr vs, r)) (parseElements n cs))
          else if c = CHR ''{'' then
            (case skipSpace cs of
               [] \<Rightarrow> None
             | d # ds \<Rightarrow> if d = CHR ''}'' then Some (Obj [], ds)
                         else map_option (\<lambda>(kvs, r). (Obj kvs, r)) (parseMembers n cs))
          else if c = CHR 0x22 then map_option (\<lambda>(str, r). (Str str, r)) (parseChars cs)
          else if take 4 (c # cs) = ''null'' then Some (Null, drop 4 (c # cs))
          else if take 4 (c # cs) = ''true'' then Some (Bool True, drop 4 (c # cs))
          else if take 5 (c # cs) = ''false'' then Some (Bool False, drop 5 (c # cs))
          else parseNumber (c # cs))"
| "parseElements 0 s = None"
| "parseElements (Suc n) s =
     (case parseValue n s of
        None \<Rightarrow> None
      | Some (v, r) \<Rightarrow>
          (case skipSpace r of
             [] \<Rightarrow> None
           | c # cs \<Rightarrow>
               if c = CHR '','' then map_option (\<lambda>(vs, r'). (v # vs, r')) (parseElements n cs)
               else if c = CHR '']'' then Some ([v], cs)
               else None))"
| "parseMembers 0 s = None"
| "parseMembers (Suc n) s =
     (case skipSpace s of
        [] \<Rightarrow> None
      | q # qs \<Rightarrow>
          if q \<noteq> CHR 0x22 then None
          else (case parseChars qs of
                  None \<Rightarrow> None
                | Some (k, r) \<Rightarrow>
                    (case skipSpace r of
                       [] \<Rightarrow> None
                     | c # cs \<Rightarrow>
                         if c \<noteq> CHR '':'' then None
                         else (case parseValue n cs of
                                 None \<Rightarrow> None
                               | Some (v, r') \<Rightarrow>
                                   (case skipSpace r' of
                                      [] \<Rightarrow> None
                                    | d # ds \<Rightarrow>
                                        if d = CHR '','' then
                                          map_option (\<lambda>(kvs, r''). (addMember k v kvs, r''))
                                            (parseMembers n ds)
                                        else if d = CHR ''}'' then Some ([(k, v)], ds)
                                        else None)))))"

definition hostParse :: "string \<Rightarrow> string + jsval" where
  "hostParse text =
     (case parseValue (2 * length text + 2) text of
        None \<Rightarrow> Inl ''Unexpected token''
      | Some (v, r) \<Rightarrow> if skipSpace r = [] then Inr v else Inl ''Unexpected token'')"

subsection \<open>Example collections\<close>

definition emma :: object where
  "emma = [(''id'', Str ''book_2''), (''title'', Str ''Emma''), (''author'', Str ''Jane Austen''),
           (''pages'', Str ''474''), (''tag'', Str ''Classic''), (''date'', Str ''2025-01-15'')]"

definition fiveBooks :: "object list" where
  "fiveBooks = [dune, emma, AList.update ''id'' (Str ''book_3'') emma,
                AList.delete ''date'' (AList.update ''id'' (Str ''book_4'') emma),
                AList.update ''id'' (Str ''book_5'') emma]"

definition fiveBooksText :: string where
  "fiveBooksText = stringifyValue [] (Arr (map Obj fiveBooks))"


section \<open>Sorter (search.js)\<close>



text \<open>
  \<^verbatim>\<open>new Date(v)\<close> for any value: a string is parsed by the host (\<open>getTime\<close>), a number
  is the time value, \<^verbatim>\<open>undefined\<close> gives an invalid date, \<^verbatim>\<open>null\<close> and the booleans
  are converted to numbers, an array or object to its string.
\<close>

definition dateValue :: "(string \<Rightarrow> int option) \<Rightarrow> jsval \<Rightarrow> int option" where
  "dateValue getTime v =
     (case v of
        Str s \<Rightarrow> getTime s
      | Num n \<Rightarrow> Some n
      | Undefined \<Rightarrow> None
      | Null \<Rightarrow> Some 0
      | Bool b \<Rightarrow> Some (if b then 1 else 0)
      | _ \<Rightarrow> getTime (toString v))"










subsection \<open>Sorting, in the words of the specification\<close>


text \<open>
  A consistent comparator on a set, as ECMAScript defines it: comparing in the other
  direction reverses the sign, and the order is transitive.
\<close>

definition consistentOn :: "'a set \<Rightarrow> ('a \<Rightarrow> 'a \<Rightarrow> int) \<Rightarrow> bool" where
  "consistentOn S c =
     ((\<forall>a \<in> S. \<forall>b \<in> S. (c a b < 0) = (0 < c b a)) \<and>
      (\<forall>a \<in> S. \<forall>b \<in> S. \<forall>d \<in> S. c a b \<le> 0 \<and> c b d \<le> 0 \<longrightarrow> c a d \<le> 0))"

text \<open>
  The records that a criterion can order: dates that the host parses, page counts that
  \<^verbatim>\<open>parseInt\<close> reads, titles that are strings, compared by a \<open>localeCompare\<close> that is
  consistent on them.
\<close>

definition sortable ::
  "(string \<Rightarrow> int option) \<Rightarrow> (string \<Rightarrow> string \<Rightarrow> int) \<Rightarrow> string \<Rightarrow> object list \<Rightarrow> bool" where
  "sortable getTime localeCompare sortBy recs =
     (if sortBy = ''date-desc'' \<or> sortBy = ''date-asc''
      then list_all (\<lambda>b. dateValue getTime (getProp b ''date'') \<noteq> None) recs
      else if sortBy = ''title-asc'' \<or> sortBy = ''title-desc''
      then list_all (\<lambda>b. isStr (getProp b ''title'')) recs \<and>
           consistentOn ((\<lambda>b. strOf (getProp b ''title'')) ` set recs) localeCompare
      else list_all (\<lambda>b. parseInt (getProp b ''pages'') \<noteq> None) recs)"







section \<open>Pattern Matcher: highlightMatches (search.js)\<close>

text \<open>
  A compiled \<^verbatim>\<open>RegExp\<close> is the host's. It is modelled by what the standard calls its
  matcher: \<open>matchAt s i\<close> is the length of the match that starts at index \<open>i\<close> of
  \<open>s\<close>, or \<^term>\<open>None\<close> when there is none; \<open>global\<close> is the \<^verbatim>\<open>g\<close> flag.
\<close>

record regex =
  matchAt :: "string \<Rightarrow> nat \<Rightarrow> nat option"
  global :: bool

text \<open>
  The successive matches from index \<open>i\<close> on, as \<^verbatim>\<open>String.prototype.replace\<close> collects
  them: the search for a match starts where the last one ended, one index further after
  an empty match, and stops beyond the end of the string. A match is a pair of its start
  and its length.
\<close>

function scan :: "regex \<Rightarrow> string \<Rightarrow> nat \<Rightarrow> (nat \<times> nat) list" where
  "scan rx s i =
     (if length s < i then []
      else (case matchAt rx s i of
              None \<Rightarrow> scan rx s (Suc i)
            | Some n \<Rightarrow> (i, n) # scan rx s (if n = 0 then Suc i else i + n)))"
  by pat_completeness auto
termination
  by (relation "measure (\<lambda>(rx, s, i). Suc (length s) - i)") auto

declare scan.simps [simp del]

text \<open>Without the \<^verbatim>\<open>g\<close> flag only the first match is replaced.\<close>

definition matches :: "regex \<Rightarrow> string \<Rightarrow> (nat \<times> nat) list" where
  "matches rx s = (if global rx then scan rx s 0 else take 1 (scan rx s 0))"

text \<open>
  The result of \<^verbatim>\<open>replace\<close>: the text between the matches, and for each match what
  the callback returns for the matched substring. A match that starts before the end of
  the one before it is skipped, as the standard says.
\<close>

fun rebuild :: "(string \<Rightarrow> string) \<Rightarrow> string \<Rightarrow> nat \<Rightarrow> (nat \<times> nat) list \<Rightarrow> string" where
  "rebuild f s pos [] = drop pos s"
| "rebuild f s pos ((p, n) # ms) =
     (if pos \<le> p
      then take (p - pos) (drop pos s) @ f (take n (drop p s)) @ rebuild f s (p + n) ms
      else rebuild f s pos ms)"

definition replace :: "regex \<Rightarrow> (string \<Rightarrow> string) \<Rightarrow> string \<Rightarrow> string" where
  "replace rx f s = rebuild f s 0 (matches rx s)"

text \<open>
  \<^verbatim>\<open>escapeHtml\<close> sets the text as the \<^verbatim>\<open>textContent\<close> of a new element and reads its
  \<^verbatim>\<open>innerHTML\<close>. The document is the host's: \<open>innerHTML\<close> is what it returns for
  a text, \<^term>\<open>None\<close> when it throws (no document).
\<close>

definition escapeHtml :: "(string \<Rightarrow> string option) \<Rightarrow> string \<Rightarrow> string option" where
  "escapeHtml innerHTML text = innerHTML text"

definition mark :: "string \<Rightarrow> string" where
  "mark m = ''<mark>'' @ m @ ''</mark>''"

definition highlightMatches ::
  "(string \<Rightarrow> string option) \<Rightarrow> string \<Rightarrow> regex option \<Rightarrow> string" where
  "highlightMatches innerHTML text regex =
     (case regex of
        None \<Rightarrow> text
      | Some rx \<Rightarrow>
          if text = [] then text
          else (case escapeHtml innerHTML text of
                  None \<Rightarrow> text
                | Some escaped \<Rightarrow> replace rx mark escaped))"

subsection \<open>Highlighting, in the words of the specification\<close>

text \<open>
  The spans \<open>ms\<close> are the non-overlapping matches of \<open>rx\<close> in \<open>s\<close> from \<open>i\<close> on,
  taken from left to right: each is a match, no match starts between the end of one span
  and the start of the next, and none after the last.
\<close>

fun leftmostFrom :: "regex \<Rightarrow> string \<Rightarrow> nat \<Rightarrow> (nat \<times> nat) list \<Rightarrow> bool" where
  "leftmostFrom rx s i [] = (\<forall>j. i \<le> j \<and> j \<le> length s \<longrightarrow> matchAt rx s j = None)"
| "leftmostFrom rx s i ((p, n) # ms) =
     (i \<le> p \<and> p \<le> length s \<and> (\<forall>j. i \<le> j \<and> j < p \<longrightarrow> matchAt rx s j = None) \<and>
      matchAt rx s p = Some n \<and> leftmostFrom rx s (if n = 0 then Suc p else p + n) ms)"

text \<open>Every span of \<open>ms\<close> wrapped in a marker, the text outside the spans as it is.\<close>

fun wrapSpans :: "string \<Rightarrow> nat \<Rightarrow> (nat \<times> nat) list \<Rightarrow> string" where
  "wrapSpans s pos [] = drop pos s"
| "wrapSpans s pos ((p, n) # ms) =
     take (p - pos) (drop pos s) @ mark (take n (drop p s)) @ wrapSpans s (p + n) ms"

subsection \<open>Hosts for the examples\<close>

text \<open>
  A browser's serialisation of a text node, and a host without a document. The
  matcher of a literal pattern.
\<close>

definition browserInnerHTML :: "string \<Rightarrow> string option" where
  "browserInnerHTML text =
     Some (concat (map (\<lambda>c. if c = CHR ''&'' then ''&amp;''
                              else if c = CHR ''<'' then ''&lt;''
                              else if c = CHR ''>'' then ''&gt;''
                              else if c = CHR 0xA0 then ''&nbsp;''
                              else [c]) text))"

definition noDocument :: "string \<Rightarrow> string option" where
  "noDocument text = None"

definition literal :: "string \<Rightarrow> bool \<Rightarrow> regex" where
  "literal pat g =
     \<lparr>matchAt = (\<lambda>s i. if take (length pat) (drop i s) = pat then Some (length pat) else None),
      global = g\<rparr>"

section \<open>Properties of the validators\<close>

lemma digitsValue_foldl_ge:
  "a \<le> foldl (\<lambda>acc c. 10 * acc + digitValue c) a cs"
proof (induction cs arbitrary: a)
  case Nil
  show ?case by simp
next
  case (Cons c cs)
  have "a \<le> 10 * a + digitValue c" by simp
  also have "\<dots> \<le> foldl (\<lambda>acc c. 10 * acc + digitValue c) (10 * a + digitValue c) cs"
    by (rule Cons.IH)
  finally show ?case by simp
qed

lemma nonzero_digit_facts:
  assumes "c \<in> set ''123456789''"
  shows "isDigit c" and "\<not> isSpace c" and "c \<noteq> CHR ''-''" and "c \<noteq> CHR ''+''"
    and "1 \<le> digitValue c"
  using assms by (auto simp: isDigit_def isSpace_def digitValue_def)

lemma patterns_pages_parse:
  assumes "patterns_pages v"
  shows "\<exists>n. parseInt10 v = Some n \<and> 1 \<le> n"
proof -
  from assms obtain c cs where v: "v = c # cs" and c: "c \<in> set ''123456789''"
    and cs: "list_all isDigit cs"
    by (auto simp: patterns_pages_def split: list.splits)
  note f = nonzero_digit_facts [OF c]
  have drop: "dropWhile isSpace v = v" using f(2) by (simp add: v)
  have sign: "readSign v = (False, v)" using f(3,4) by (simp add: v readSign_def)
  have tw: "takeWhile isDigit v = v"
    using f(1) cs by (simp add: v list_all_iff)
  have "digitValue c \<le> digitsValue v"
    unfolding digitsValue_def v using digitsValue_foldl_ge [of "digitValue c" cs] by simp
  with f(5) have "1 \<le> int (digitsValue v)" by linarith
  moreover have "parseInt10 v = Some (int (digitsValue v))"
    by (simp add: parseInt10_def drop sign tw) (simp add: v)
  ultimately show ?thesis by simp
qed

text \<open>
  C10: every string that \<^verbatim>\<open>/^[1-9]\d*$/\<close> accepts parses to an integer that is at
  least 1, so \<^verbatim>\<open>validatePages\<close> returns the Required failure, the pattern's
  Formatting failure or success, and never the failure of the parse-then-compare branch.
\<close>

theorem validatePages_NotPositive_unreachable:
  "(patterns_pages v \<longrightarrow> (\<exists>n. parseInt10 v = Some n \<and> 1 \<le> n)) \<and>
   validatePages v \<in> {failed ''Pages is required'', failed ''Pages must be a positive integer'', passed} \<and>
   validatePages v \<noteq> failed ''Pages must be greater than 0''"
proof -
  have parse: "patterns_pages v \<longrightarrow> (\<exists>n. parseInt10 v = Some n \<and> 1 \<le> n)"
    using patterns_pages_parse by blast
  have range: "validatePages v \<in>
      {failed ''Pages is required'', failed ''Pages must be a positive integer'', passed}"
  proof (cases "patterns_pages v")
    case True
    then obtain n where "parseInt10 v = Some n" "1 \<le> n" using parse by blast
    then show ?thesis by (simp add: validatePages_def)
  next
    case False
    then show ?thesis by (simp add: validatePages_def)
  qed
  have "validatePages v \<noteq> failed ''Pages must be greater than 0''"
    using range by (auto simp: failed_def passed_def)
  with parse range show ?thesis by blast
qed

theorem validatePages_NotPositive_unreachable_witness:
  "patterns_pages ''250'' \<and> (\<exists>n. parseInt10 ''250'' = Some n \<and> 1 \<le> n) \<and>
   validatePages ''250'' \<noteq> failed ''Pages must be greater than 0''"
proof -
  have p: "patterns_pages ''250''" by (simp add: patterns_pages_def isDigit_def)
  from validatePages_NotPositive_unreachable [of "''250''"] p show ?thesis by blast
qed

subsection \<open>The date pattern and the calendar\<close>

lemma digitValue_simps:
  "digitValue (CHR ''0'') = 0" "digitValue (CHR ''1'') = 1" "digitValue (CHR ''2'') = 2"
  "digitValue (CHR ''3'') = 3" "digitValue (CHR ''4'') = 4" "digitValue (CHR ''5'') = 5"
  "digitValue (CHR ''6'') = 6" "digitValue (CHR ''7'') = 7" "digitValue (CHR ''8'') = 8"
  "digitValue (CHR ''9'') = 9"
  by (simp_all add: digitValue_def)
lemma isDigit_cases:
  "isDigit c = (c = CHR ''0'' \<or> c = CHR ''1'' \<or> c = CHR ''2'' \<or> c = CHR ''3'' \<or> c = CHR ''4'' \<or>
     c = CHR ''5'' \<or> c = CHR ''6'' \<or> c = CHR ''7'' \<or> c = CHR ''8'' \<or> c = CHR ''9'')"
  by (simp add: isDigit_def)
lemma two_digits_value: "digitsValue [a, b] = 10 * digitValue a + digitValue b"
  by (simp add: digitsValue_def)

lemma month_digits:
  "(isDigit a \<and> isDigit b \<and> 1 \<le> digitsValue [a, b] \<and> digitsValue [a, b] \<le> 12) =
   ((a = CHR ''0'' \<and> b \<in> set ''123456789'') \<or> (a = CHR ''1'' \<and> b \<in> set ''012''))"
proof (rule iffI)
  assume "isDigit a \<and> isDigit b \<and> 1 \<le> digitsValue [a, b] \<and> digitsValue [a, b] \<le> 12"
  then show "(a = CHR ''0'' \<and> b \<in> set ''123456789'') \<or> (a = CHR ''1'' \<and> b \<in> set ''012'')"
    unfolding two_digits_value isDigit_cases
    by (elim conjE disjE; simp add: digitValue_simps)
next
  assume "(a = CHR ''0'' \<and> b \<in> set ''123456789'') \<or> (a = CHR ''1'' \<and> b \<in> set ''012'')"
  then show "isDigit a \<and> isDigit b \<and> 1 \<le> digitsValue [a, b] \<and> digitsValue [a, b] \<le> 12"
    unfolding two_digits_value isDigit_cases set_simps insert_iff empty_iff
    by (elim conjE disjE; simp add: digitValue_simps)
qed

lemma day_digits:
  "(isDigit a \<and> isDigit b \<and> 1 \<le> digitsValue [a, b] \<and> digitsValue [a, b] \<le> 31) =
   ((a = CHR ''0'' \<and> b \<in> set ''123456789'') \<or> (a \<in> set ''12'' \<and> isDigit b) \<or>
    (a = CHR ''3'' \<and> b \<in> set ''01''))"
proof (rule iffI)
  assume "isDigit a \<and> isDigit b \<and> 1 \<le> digitsValue [a, b] \<and> digitsValue [a, b] \<le> 31"
  then show "(a = CHR ''0'' \<and> b \<in> set ''123456789'') \<or> (a \<in> set ''12'' \<and> isDigit b) \<or>
    (a = CHR ''3'' \<and> b \<in> set ''01'')"
    unfolding two_digits_value isDigit_cases
    by (elim conjE disjE; simp add: digitValue_simps)
next
  assume "(a = CHR ''0'' \<and> b \<in> set ''123456789'') \<or> (a \<in> set ''12'' \<and> isDigit b) \<or>
    (a = CHR ''3'' \<and> b \<in> set ''01'')"
  then show "isDigit a \<and> isDigit b \<and> 1 \<le> digitsValue [a, b] \<and> digitsValue [a, b] \<le> 31"
    unfolding two_digits_value isDigit_cases set_simps insert_iff empty_iff
    by (elim conjE disjE; simp add: digitValue_simps)
qed

lemma length_ten:
  "(length s = 10) = (\<exists>a b c d e f g h i j. s = [a, b, c, d, e, f, g, h, i, j])"
  by (auto simp: eval_nat_numeral length_Suc_conv)

lemma matchesDateFormat_ten:
  "matchesDateFormat [y1, y2, y3, y4, h1, m1, m2, h2, d1, d2] =
     (isDigit y1 \<and> isDigit y2 \<and> isDigit y3 \<and> isDigit y4 \<and> h1 = CHR ''-'' \<and>
      (isDigit m1 \<and> isDigit m2 \<and> 1 \<le> digitsValue [m1, m2] \<and> digitsValue [m1, m2] \<le> 12) \<and>
      h2 = CHR ''-'' \<and>
      (isDigit d1 \<and> isDigit d2 \<and> 1 \<le> digitsValue [d1, d2] \<and> digitsValue [d1, d2] \<le> 31))"
  by (simp add: matchesDateFormat_def monthOf_def dayOf_def eval_nat_numeral conj_ac)

lemma patterns_date_ten:
  "patterns_date [y1, y2, y3, y4, h1, m1, m2, h2, d1, d2] =
     (isDigit y1 \<and> isDigit y2 \<and> isDigit y3 \<and> isDigit y4 \<and> h1 = CHR ''-'' \<and>
         ((m1 = CHR ''0'' \<and> m2 \<in> set ''123456789'') \<or> (m1 = CHR ''1'' \<and> m2 \<in> set ''012'')) \<and>
         h2 = CHR ''-'' \<and>
         ((d1 = CHR ''0'' \<and> d2 \<in> set ''123456789'') \<or>
          (d1 \<in> set ''12'' \<and> isDigit d2) \<or>
          (d1 = CHR ''3'' \<and> d2 \<in> set ''01'')))"
  unfolding patterns_date_def list.case ..

lemma patterns_date_length: "patterns_date s \<Longrightarrow> length s = 10"
  unfolding patterns_date_def by (simp split: list.splits)

lemma patterns_date_iff: "patterns_date s = matchesDateFormat s"
proof (cases "length s = 10")
  case True
  then obtain a b c d e f g h i j where s: "s = [a, b, c, d, e, f, g, h, i, j]"
    unfolding length_ten by blast
  show ?thesis
    unfolding s patterns_date_ten matchesDateFormat_ten month_digits day_digits ..
next
  case False
  then show ?thesis using patterns_date_length by (auto simp: matchesDateFormat_def)
qed

lemma matchesDateFormat_not_blank: "matchesDateFormat s \<Longrightarrow> \<not> isBlank s"
proof -
  assume m: "matchesDateFormat s"
  then have "length s = 10" by (simp add: matchesDateFormat_def)
  then obtain a b c d e f g h i j where s: "s = [a, b, c, d, e, f, g, h, i, j]"
    unfolding length_ten by blast
  from m have "isDigit a" "isDigit j" unfolding s matchesDateFormat_ten by simp_all
  then have "\<not> isSpace a" "\<not> isSpace j" unfolding isDigit_cases by (elim disjE; simp add: isSpace_def)+
  then show ?thesis by (simp add: s isBlank_def trim_def)
qed

text \<open>
  On a host whose \<^verbatim>\<open>Date\<close> checks only the ranges of the fields, every string of the
  form is accepted: the test of \<^verbatim>\<open>getTime()\<close> for NaN never fails there.
\<close>

lemma validateDate_rolling:
  assumes "matchesDateFormat v"
  shows "validateDate rollingDate v = passed"
  using assms matchesDateFormat_not_blank [OF assms]
  by (simp add: validateDate_def patterns_date_iff rollingDate_def)

lemma validateDate_strict:
  assumes "matchesDateFormat v"
  shows "validateDate strictDate v = (if denotesRealDate v then passed else failed ''Invalid date'')"
  using assms matchesDateFormat_not_blank [OF assms]
  by (simp add: validateDate_def patterns_date_iff strictDate_def)

lemma timeValue_30_February: "timeValue ''2025-02-30'' = timeValue ''2025-03-02''"
  by (simp add: timeValue_def yearOf_def monthOf_def dayOf_def digitsValue_def digitValue_def
      daysBeforeMonth_def daysInMonth_def isLeapYear_def upt_rec [of _ "numeral n" for n])

text \<open>
  C1: \<^verbatim>\<open>validateDate\<close> announces its last test as a check that the string is a real
  date, but the test is only whether the host's \<^verbatim>\<open>Date\<close> has a time value. V8 (Node.js,
  Chrome) reads 2025-02-30, which has the form and denotes no calendar date, as
  2 March 2025, so there \<^verbatim>\<open>validateDate\<close> accepts it instead of failing with the
  invalid-date message.
\<close>

theorem validateDate_accepts_30_February:
  "patterns_date ''2025-02-30'' \<and> \<not> denotesRealDate ''2025-02-30'' \<and>
   rollingDate ''2025-02-30'' = rollingDate ''2025-03-02'' \<and>
   rollingDate ''2025-02-30'' \<noteq> None \<and>
   validateDate rollingDate ''2025-02-30'' = passed \<and>
   validateDate rollingDate ''2025-02-30'' \<noteq> failed ''Invalid date''"
proof -
  have m: "matchesDateFormat ''2025-02-30''" by code_simp
  have m': "matchesDateFormat ''2025-03-02''" by code_simp
  have r: "\<not> denotesRealDate ''2025-02-30''" by code_simp
  have t: "rollingDate ''2025-02-30'' = rollingDate ''2025-03-02''"
    using m m' by (simp add: rollingDate_def timeValue_30_February)
  have v: "validateDate rollingDate ''2025-02-30'' = passed" using m by (rule validateDate_rolling)
  have n: "rollingDate ''2025-02-30'' \<noteq> None" using m by (simp add: rollingDate_def)
  have p: "patterns_date ''2025-02-30''" using m by (simp add: patterns_date_iff)
  have f: "validateDate rollingDate ''2025-02-30'' \<noteq> failed ''Invalid date''"
    unfolding v by (simp add: passed_def failed_def)
  from p r t n v f show ?thesis by (intro conjI)
qed

subsection \<open>validateBook\<close>

lemma validateBook_errors:
  "book_errors (validateBook g b) =
     map (\<lambda>f. (f, message (fieldValidation g b f)))
       (filter (\<lambda>f. \<not> valid (fieldValidation g b f)) fieldNames)"
  by (simp add: validateBook_def fieldNames_def fieldValidation_def Let_def)

lemma validateBook_valid:
  "book_valid (validateBook g b) = (book_errors (validateBook g b) = [])"
  by (simp add: validateBook_def Let_def)

lemma fieldValidation_simps:
  "fieldValidation g b ''title'' = validateTitle (title b)"
  "fieldValidation g b ''author'' = validateAuthor (author b)"
  "fieldValidation g b ''pages'' = validatePages (pages b)"
  "fieldValidation g b ''tag'' = validateTag (tag b)"
  "fieldValidation g b ''date'' = validateDate g (date b)"
  by (simp_all add: fieldValidation_def)

lemma filter_is_singleton:
  "distinct xs \<Longrightarrow> f \<in> set xs \<Longrightarrow> filter (\<lambda>x. x = f) xs = [f]"
proof (induction xs)
  case Nil
  then show ?case by simp
next
  case (Cons x xs)
  show ?case
  proof (cases "x = f")
    case True
    with Cons.prems have "f \<notin> set xs" by simp
    then have "filter (\<lambda>x. x = f) xs = []" by (auto simp: filter_empty_conv)
    with True show ?thesis by simp
  next
    case False
    with Cons show ?thesis by simp
  qed
qed

lemma distinct_fieldNames: "distinct fieldNames"
  by (simp add: fieldNames_def)

lemma validateBook_all:
  "book_valid (validateBook g b) =
     (valid (validateTitle (title b)) \<and> valid (validateAuthor (author b)) \<and>
      valid (validatePages (pages b)) \<and> valid (validateTag (tag b)) \<and>
      valid (validateDate g (date b)))"
proof -
  have "book_valid (validateBook g b) = (\<forall>f \<in> set fieldNames. valid (fieldValidation g b f))"
    unfolding validateBook_valid validateBook_errors by (simp add: filter_empty_conv)
  also have "\<dots> = (valid (fieldValidation g b ''title'') \<and> valid (fieldValidation g b ''author'') \<and>
      valid (fieldValidation g b ''pages'') \<and> valid (fieldValidation g b ''tag'') \<and>
      valid (fieldValidation g b ''date''))"
    unfolding fieldNames_def by (simp only: list.set Set.ball_simps simp_thms)
  finally show ?thesis unfolding fieldValidation_simps .
qed

lemma validateBook_one:
  assumes "f \<in> set fieldNames"
    and "\<forall>f' \<in> set fieldNames. valid (fieldValidation g b f') = (f' \<noteq> f)"
  shows "map fst (book_errors (validateBook g b)) = [f]"
proof -
  have "filter (\<lambda>f'. \<not> valid (fieldValidation g b f')) fieldNames =
        filter (\<lambda>f'. f' = f) fieldNames"
    using assms(2) by (intro filter_cong) auto
  also have "\<dots> = [f]" using distinct_fieldNames assms(1) by (rule filter_is_singleton)
  finally show ?thesis unfolding validateBook_errors by (simp add: comp_def)
qed

text \<open>
  C6: \<^verbatim>\<open>validateBook\<close> is valid, with an empty error object, exactly when the five
  field validators pass; every field is checked, so the error object holds exactly the
  failing fields, each with its validator's message, in the order title, author, pages,
  tag, date; and when exactly one field fails, exactly that field is in the error object.
\<close>

theorem validateBook_aggregates:
  "book_valid (validateBook g b) =
     (valid (validateTitle (title b)) \<and> valid (validateAuthor (author b)) \<and>
      valid (validatePages (pages b)) \<and> valid (validateTag (tag b)) \<and>
      valid (validateDate g (date b))) \<and>
   book_valid (validateBook g b) = (book_errors (validateBook g b) = []) \<and>
   book_errors (validateBook g b) =
     map (\<lambda>f. (f, message (fieldValidation g b f)))
       (filter (\<lambda>f. \<not> valid (fieldValidation g b f)) fieldNames) \<and>
   (\<forall>f \<in> set fieldNames.
      (\<forall>f' \<in> set fieldNames. valid (fieldValidation g b f') = (f' \<noteq> f)) \<longrightarrow>
      map fst (book_errors (validateBook g b)) = [f])"
proof (intro conjI ballI impI)
  show "book_valid (validateBook g b) =
     (valid (validateTitle (title b)) \<and> valid (validateAuthor (author b)) \<and>
      valid (validatePages (pages b)) \<and> valid (validateTag (tag b)) \<and>
      valid (validateDate g (date b)))"
    by (rule validateBook_all)
  show "book_valid (validateBook g b) = (book_errors (validateBook g b) = [])"
    by (rule validateBook_valid)
  show "book_errors (validateBook g b) =
     map (\<lambda>f. (f, message (fieldValidation g b f)))
       (filter (\<lambda>f. \<not> valid (fieldValidation g b f)) fieldNames)"
    by (rule validateBook_errors)
next
  fix f
  assume "f \<in> set fieldNames"
    and "\<forall>f' \<in> set fieldNames. valid (fieldValidation g b f') = (f' \<noteq> f)"
  then show "map fst (book_errors (validateBook g b)) = [f]"
    by (rule validateBook_one)
qed

theorem validateBook_aggregates_witness:
  "''pages'' \<in> set fieldNames \<and>
   valid (validateTitle ''Dune'') \<and> valid (validateAuthor ''Frank Herbert'') \<and>
   \<not> valid (validatePages ''0'') \<and> valid (validateTag ''Sci-Fi'') \<and>
   valid (validateDate strictDate ''2025-02-28'') \<and>
   map fst (book_errors (validateBook strictDate
        \<lparr>title = ''Dune'', author = ''Frank Herbert'', pages = ''0'', tag = ''Sci-Fi'',
         date = ''2025-02-28''\<rparr>)) = [''pages'']"
proof -
  define b where "b = \<lparr>title = ''Dune'', author = ''Frank Herbert'', pages = ''0'',
    tag = ''Sci-Fi'', date = ''2025-02-28''\<rparr>"
  have t: "valid (validateTitle ''Dune'')" by code_simp
  have a: "valid (validateAuthor ''Frank Herbert'')" by code_simp
  have p: "\<not> valid (validatePages ''0'')" by code_simp
  have g: "valid (validateTag ''Sci-Fi'')" by code_simp
  have r: "denotesRealDate ''2025-02-28''" by code_simp
  then have m: "matchesDateFormat ''2025-02-28''" by (simp add: denotesRealDate_def)
  have d: "valid (validateDate strictDate ''2025-02-28'')"
    using r m matchesDateFormat_not_blank [OF m]
    by (simp add: validateDate_def patterns_date_iff strictDate_def passed_def)
  have mem: "''pages'' \<in> set fieldNames" by (simp add: fieldNames_def)
  have hyp: "\<forall>f' \<in> set fieldNames. valid (fieldValidation strictDate b f') = (f' \<noteq> ''pages'')"
    unfolding fieldNames_def
    by (simp only: list.set Set.ball_simps simp_thms fieldValidation_simps)
       (simp add: b_def t a p g d)
  have one: "map fst (book_errors (validateBook strictDate b)) = [''pages'']"
    by (rule validateBook_aggregates [of strictDate b, THEN conjunct2, THEN conjunct2,
          THEN conjunct2, THEN bspec, OF mem, THEN mp, OF hyp])
  show ?thesis
    using mem t a p g d one unfolding b_def by (intro conjI)
qed

section \<open>Properties of the numbers\<close>

lemma log2floor_bounds: "0 < n \<Longrightarrow> 2 ^ log2floor n \<le> n \<and> n < 2 ^ Suc (log2floor n)"
proof (induction n rule: log2floor.induct)
  case (1 n)
  show ?case
  proof (cases "n < 2")
    case True
    with "1.prems" have "n = 1" by simp
    then show ?thesis by (simp add: log2floor.simps)
  next
    case False
    then have "0 < n div 2" by simp
    from "1.IH" [OF False this]
    have ih: "2 ^ log2floor (n div 2) \<le> n div 2" "n div 2 < 2 ^ Suc (log2floor (n div 2))" by simp_all
    have l: "log2floor n = Suc (log2floor (n div 2))" using False by (subst log2floor.simps) simp
    from ih show ?thesis unfolding l by (simp; linarith)
  qed
qed

lemma log2floor_rat:
  assumes "0 < n"
  shows "(2::rat) ^ log2floor n \<le> of_nat n" "(of_nat n + 1 :: rat) \<le> 2 * 2 ^ log2floor n"
proof -
  from log2floor_bounds [OF assms] have l: "2 ^ log2floor n \<le> n" "n + 1 \<le> 2 * 2 ^ log2floor n" by simp_all
  have "(of_nat (2 ^ log2floor n) :: rat) \<le> of_nat n" using l(1) by (simp only: of_nat_le_iff)
  then show "(2::rat) ^ log2floor n \<le> of_nat n" by simp
  have "(of_nat (n + 1) :: rat) \<le> of_nat (2 * 2 ^ log2floor n)" using l(2) by (simp only: of_nat_le_iff)
  then show "(of_nat n + 1 :: rat) \<le> 2 * 2 ^ log2floor n" by simp
qed

lemma roundHalfEven_near: "\<bar>of_int (roundHalfEven r) - r\<bar> \<le> 1 / 2"
proof -
  have f: "of_int \<lfloor>r\<rfloor> \<le> r" "r < of_int \<lfloor>r\<rfloor> + 1" by linarith+
  show ?thesis
  proof (cases "r - of_int \<lfloor>r\<rfloor> < 1 / 2")
    case True
    then have "roundHalfEven r = \<lfloor>r\<rfloor>" by (simp add: roundHalfEven_def)
    with True f show ?thesis by simp
  next
    case False
    note nl = this
    show ?thesis
    proof (cases "1 / 2 < r - of_int \<lfloor>r\<rfloor>")
      case True
      then have "roundHalfEven r = \<lfloor>r\<rfloor> + 1" using nl by (simp add: roundHalfEven_def)
      with True f show ?thesis by simp
    next
      case False
      with nl have e: "r - of_int \<lfloor>r\<rfloor> = 1 / 2" by simp
      have "roundHalfEven r = \<lfloor>r\<rfloor> \<or> roundHalfEven r = \<lfloor>r\<rfloor> + 1"
        by (simp add: roundHalfEven_def Let_def)
      with e show ?thesis by (elim disjE; simp)
    qed
  qed
qed

lemma roundHalfEven_of_int: "roundHalfEven (of_int k) = k"
  by (simp add: roundHalfEven_def)

lemma powi_nat: "(2::rat) powi int k = 2 ^ k" "(2::rat) powi (int k + 1) = 2 * 2 ^ k"
proof -
  show "(2::rat) powi int k = 2 ^ k" by (simp only: power_int_of_nat)
  have "int k + 1 = int (Suc k)" by simp
  then show "(2::rat) powi (int k + 1) = 2 * 2 ^ k" by (simp only: power_int_of_nat power_Suc)
qed

lemma powi_neg: "(2::rat) powi (- int (Suc k)) = 1 / (2 * 2 ^ k)"
  "(2::rat) powi (- int (Suc k) + 1) = 1 / 2 ^ k"
proof -
  show "(2::rat) powi (- int (Suc k)) = 1 / (2 * 2 ^ k)"
    by (simp only: power_int_minus power_int_of_nat power_Suc divide_inverse mult_1)
  have "- int (Suc k) + 1 = - int k" by simp
  then show "(2::rat) powi (- int (Suc k) + 1) = 1 / 2 ^ k"
    by (simp only: power_int_minus power_int_of_nat divide_inverse mult_1)
qed

lemma binade_bounds:
  assumes "0 < x"
  shows "2 powi binade x \<le> x \<and> x < 2 powi (binade x + 1)"
proof (cases "1 \<le> x")
  case True
  define n where "n = nat \<lfloor>x\<rfloor>"
  have "1 \<le> \<lfloor>x\<rfloor>" using True by linarith
  then have n0: "0 < n" and nx: "(of_nat n :: rat) = of_int \<lfloor>x\<rfloor>" unfolding n_def by simp_all
  have n: "of_nat n \<le> x" "x < of_nat n + 1" unfolding nx by linarith+
  have b: "binade x = int (log2floor n)" using True by (simp add: binade_def n_def)
  from log2floor_rat [OF n0] n
  have "(2::rat) ^ log2floor n \<le> x" "x < 2 * 2 ^ log2floor n" by linarith+
  then show ?thesis unfolding b powi_nat by (rule conjI)
next
  case False
  define m where "m = nat (\<lceil>1 / x\<rceil> - 1)"
  have y: "1 < 1 / x" using assms False by simp
  then have c: "2 \<le> \<lceil>1 / x\<rceil>" by linarith
  from c have k: "0 \<le> \<lceil>1 / x\<rceil> - 1" "0 < \<lceil>1 / x\<rceil> - 1" by linarith+
  have m0: "0 < m" using k(2) unfolding m_def by simp
  have mx: "(of_nat m :: rat) = of_int \<lceil>1 / x\<rceil> - 1"
    unfolding m_def using of_nat_nat [OF k(1), where 'a = rat] by simp
  have m: "of_nat m < 1 / x" "1 / x \<le> of_nat m + 1" unfolding mx by linarith+
  have b: "binade x = - int (Suc (log2floor m))" using False by (simp add: binade_def m_def)
  from log2floor_rat [OF m0] m
  have u: "1 / x \<le> 2 * 2 ^ log2floor m" and v: "2 ^ log2floor m < 1 / x" by linarith+
  have p: "(0::rat) < 2 * 2 ^ log2floor m" "(0::rat) < 2 ^ log2floor m" by simp_all
  have 1: "1 / (2 * 2 ^ log2floor m) \<le> x" using u assms p(1) by (simp add: field_simps)
  have 2: "x < 1 / 2 ^ log2floor m" using v assms p(2) by (simp add: field_simps)
  from 1 2 show ?thesis unfolding b powi_neg by (rule conjI)
qed

lemma powi_less_cancel: "(2::rat) powi a < 2 powi b \<Longrightarrow> a < b"
proof (rule ccontr)
  assume l: "(2::rat) powi a < 2 powi b" and "\<not> a < b"
  then have "b \<le> a" by simp
  then have "(2::rat) powi b \<le> 2 powi a" by (rule power_int_increasing) simp
  with l show False by simp
qed

lemma powi_pos: "(0::rat) < 2 powi e"
  by (rule zero_less_power_int) simp

lemma binade_unique:
  assumes "0 < x" "2 powi e \<le> x" "x < 2 powi (e + 1)"
  shows "binade x = e"
proof -
  from binade_bounds [OF assms(1)] have b: "2 powi binade x \<le> x" "x < 2 powi (binade x + 1)" by simp_all
  from b(1) assms(3) have "(2::rat) powi binade x < 2 powi (e + 1)" by (rule le_less_trans)
  then have 1: "binade x < e + 1" by (rule powi_less_cancel)
  from assms(2) b(2) have "(2::rat) powi e < 2 powi (binade x + 1)" by (rule le_less_trans)
  then have 2: "e < binade x + 1" by (rule powi_less_cancel)
  from 1 2 show ?thesis by simp
qed

text \<open>
  The double nearest to a number that is neither zero, nor below the normal range, nor
  near the overflow threshold: an integer multiple of the unit in the last place, no
  further from the number than half that unit.
\<close>

lemma toDouble_near:
  assumes "x \<noteq> 0" "- 1022 \<le> binade \<bar>x\<bar>" "\<bar>x\<bar> < 2 ^ 1023"
  shows "\<exists>R. toDouble x = Finite (of_int R * 2 powi (binade \<bar>x\<bar> - 52)) \<and>
           \<bar>of_int R - x / 2 powi (binade \<bar>x\<bar> - 52)\<bar> \<le> 1 / 2"
proof -
  define e where "e = binade \<bar>x\<bar>"
  define u :: rat where "u = 2 powi (e - 52)"
  define r where "r = roundHalfEven (\<bar>x\<bar> / u)"
  have u0: "0 < u" unfolding u_def by (rule powi_pos)
  have mx: "max (e - 52) (- 1074) = e - 52" using assms(2) unfolding e_def by simp
  have near: "\<bar>of_int r - \<bar>x\<bar> / u\<bar> \<le> 1 / 2" unfolding r_def by (rule roundHalfEven_near)
  have ax: "0 < \<bar>x\<bar>" using assms(1) by simp
  from binade_bounds [OF ax] have bx: "2 powi e \<le> \<bar>x\<bar>" unfolding e_def by simp
  have "(2::rat) powi (e - 52) \<le> 2 powi e" by (rule power_int_increasing) simp_all
  with bx have ux: "u \<le> \<bar>x\<bar>" unfolding u_def by simp
  have "of_int r \<le> \<bar>x\<bar> / u + 1 / 2" using near by linarith
  then have "of_int r * u \<le> (\<bar>x\<bar> / u + 1 / 2) * u"
    using u0 by (intro mult_right_mono) simp_all
  also have "\<dots> = \<bar>x\<bar> + u / 2" using u0 by (simp add: field_simps)
  also have "\<dots> < 2 ^ 1023 + 2 ^ 1023" using ux assms(3) by linarith
  finally have small: "\<not> 2 ^ 1024 \<le> of_int r * u" by simp
  have td: "toDouble x = Finite (if 0 < x then of_int r * u else - (of_int r * u))"
    using assms(1) small unfolding toDouble_def Let_def e_def [symmetric] mx u_def [symmetric] r_def [symmetric]
    by simp
  show ?thesis
  proof (cases "0 < x")
    case True
    then have "\<bar>x\<bar> = x" by simp
    with near td True show ?thesis unfolding u_def e_def by auto
  next
    case False
    then have a: "\<bar>x\<bar> = - x" by simp
    have "\<bar>of_int (- r) - x / u\<bar> = \<bar>of_int r - \<bar>x\<bar> / u\<bar>" unfolding a by simp
    with near have n: "\<bar>of_int (- r) - x / u\<bar> \<le> 1 / 2" by simp
    have "toDouble x = Finite (of_int (- r) * u)" using td False by simp
    with n show ?thesis unfolding u_def e_def by blast
  qed
qed

lemma toDouble_of_int:
  assumes "\<bar>k\<bar> < 2 ^ 53"
  shows "toDouble (of_int k) = Finite (of_int k)"
proof (cases "k = 0")
  case True
  then show ?thesis by (simp add: toDouble_def)
next
  case False
  define x :: rat where "x = of_int k"
  define e where "e = binade \<bar>x\<bar>"
  have x0: "x \<noteq> 0" using False unfolding x_def by simp
  have ax: "0 < \<bar>x\<bar>" using x0 by simp
  have x1: "1 \<le> \<bar>x\<bar>" using False unfolding x_def by (simp flip: of_int_abs)
  have xk: "\<bar>x\<bar> < 2 ^ 53" using assms unfolding x_def
    by (metis of_int_abs of_int_less_iff of_int_numeral of_int_power)
  from binade_bounds [OF ax] have b: "2 powi e \<le> \<bar>x\<bar>" "\<bar>x\<bar> < 2 powi (e + 1)" unfolding e_def by simp_all
  have "(2::rat) powi e < 2 powi 53" using b(1) xk by simp
  then have e1: "e < 53" by (rule powi_less_cancel)
  have "(2::rat) powi 0 < 2 powi (e + 1)" using x1 b(2) by simp
  then have e0: "0 \<le> e" using powi_less_cancel by fastforce
  define j where "j = nat (52 - e)"
  have ej: "e - 52 = - int j" using e1 unfolding j_def by simp
  have u: "(2::rat) powi (e - 52) = 1 / 2 ^ j" unfolding ej
    by (simp only: power_int_minus power_int_of_nat divide_inverse mult_1)
  from toDouble_near [of x] x0 e0 xk
  obtain R where R: "toDouble x = Finite (of_int R * (1 / 2 ^ j))" "\<bar>of_int R - x / (1 / 2 ^ j)\<bar> \<le> 1 / 2"
    unfolding e_def [symmetric] u by (auto simp: e_def)
  have "x / (1 / 2 ^ j) = of_int (k * 2 ^ j)" unfolding x_def by simp
  with R(2) have "\<bar>(of_int (R - k * 2 ^ j) :: rat)\<bar> \<le> 1 / 2" by simp
  then have "\<bar>(of_int (R - k * 2 ^ j) :: rat)\<bar> < 1" by linarith
  then have "\<bar>R - k * 2 ^ j\<bar> < 1" by (metis of_int_abs of_int_less_iff of_int_1)
  then have "R = k * 2 ^ j" by simp
  then have "of_int R * (1 / 2 ^ j) = x" unfolding x_def by simp
  with R(1) show ?thesis unfolding x_def by simp
qed

lemma numberPlus_ints:
  assumes "\<bar>a + b\<bar> < 2 ^ 53"
  shows "numberPlus (Finite (of_int a)) (Finite (of_int b)) = Finite (of_int (a + b))"
  using toDouble_of_int [OF assms] by simp

text \<open>
  The quotient of an integer below \<open>2^52\<close> in magnitude by an array length: rounding the
  double quotient gives the same integer as rounding the exact quotient.
\<close>

lemma round_quotient:
  assumes n: "0 < n" "n < 2 ^ 32" and t: "\<bar>t\<bar> < 2 ^ 52"
  shows "Math_round (dividedBy (Finite (of_int t)) n) = Finite (of_int \<lfloor>of_int t / of_nat n + 1 / 2 :: rat\<rfloor>)"
proof (cases "t = 0")
  case True
  then show ?thesis using n by (simp add: dividedBy_def Math_round_def toDouble_def)
next
  case False
  define q :: rat where "q = of_int t / of_nat n"
  define e where "e = binade \<bar>q\<bar>"
  define k where "k = \<lfloor>q + 1 / 2\<rfloor>"
  have n0: "(0::rat) < of_nat n" using n(1) by simp
  have q0: "q \<noteq> 0" using False n(1) unfolding q_def by simp
  then have aq: "0 < \<bar>q\<bar>" by simp
  have aqt: "\<bar>q\<bar> = of_int \<bar>t\<bar> / of_nat n" unfolding q_def by simp
  have t1: "(1::rat) \<le> of_int \<bar>t\<bar>" using False by (simp flip: of_int_abs)
  have t52: "(of_int \<bar>t\<bar> :: rat) < 2 ^ 52" using t
    by (metis of_int_less_iff of_int_numeral of_int_power)
  have n32: "(of_nat n :: rat) < 2 ^ 32" using n(2)
    by (metis of_nat_less_iff of_nat_numeral of_nat_power)
  have n1: "(1::rat) \<le> of_nat n" using n(1) by simp
  from binade_bounds [OF aq] have b: "2 powi e \<le> \<bar>q\<bar>" "\<bar>q\<bar> < 2 powi (e + 1)" unfolding e_def by simp_all
  have "(of_int \<bar>t\<bar> :: rat) / of_nat n \<le> of_int \<bar>t\<bar> / 1"
    using n1 t1 by (intro divide_left_mono) simp_all
  then have qle: "\<bar>q\<bar> \<le> of_int \<bar>t\<bar>" unfolding aqt by simp
  have "(2::rat) powi e < 2 powi 52" using b(1) qle t52 by simp
  then have e52: "e < 52" by (rule powi_less_cancel)
  have "1 / 2 ^ 32 < \<bar>q\<bar>"
  proof -
    have "(1::rat) / 2 ^ 32 < 1 / of_nat n" using n32 n0 by (simp add: field_simps)
    also have "\<dots> \<le> \<bar>q\<bar>" unfolding aqt using t1 n0 by (simp add: field_simps)
    finally show ?thesis .
  qed
  moreover have "(2::rat) powi (- 32) = 1 / 2 ^ 32"
  proof -
    have "(2::rat) powi (- int 32) = inverse (2 ^ 32)"
      by (simp only: power_int_minus power_int_of_nat)
    then show ?thesis by (simp only: of_nat_numeral divide_inverse mult_1)
  qed
  ultimately have "(2::rat) powi (- 32) < 2 powi (e + 1)" using b(2) by simp
  then have e32: "- 32 < e + 1" by (rule powi_less_cancel)
  define j where "j = nat (51 - e)"
  define M :: int where "M = 2 ^ j"
  have M0: "0 < M" unfolding M_def by simp
  have ej: "e - 52 = - int (Suc j)" using e52 unfolding j_def by simp
  have u: "(2::rat) powi (e - 52) = 1 / (2 * of_int M)" unfolding ej M_def
    by (simp only: powi_neg) simp
  have ee: "e = 52 - int (Suc j)" using ej by simp
  have pe: "(2::rat) powi e = 2 ^ 52 / (2 * of_int M)"
  proof -
    have "(2::rat) powi e = 2 powi 52 * 2 powi (e - 52)"
      by (subst power_int_add [symmetric]) simp_all
    then show ?thesis unfolding u by simp
  qed
  have small: "\<bar>q\<bar> < 2 ^ 1023"
  proof -
    have "(2::rat) ^ 52 \<le> 2 ^ 1023" by (rule power_increasing) simp_all
    with qle t52 show ?thesis by linarith
  qed
  from toDouble_near [OF q0 _ small] e32
  obtain R where R: "toDouble q = Finite (of_int R / (2 * of_int M))"
    "\<bar>of_int R - q * (2 * of_int M)\<bar> \<le> 1 / 2"
    unfolding e_def [symmetric] u by (auto simp: e_def)
  have nM: "of_nat n < 2 * (of_int M :: rat)"
  proof -
    have "2 ^ 52 / (2 * of_int M) \<le> of_int \<bar>t\<bar> / (of_nat n :: rat)" using b(1) unfolding pe aqt .
    then have "2 ^ 52 * (of_nat n :: rat) \<le> of_int \<bar>t\<bar> * (2 * of_int M)"
      using n0 M0 by (simp add: field_simps)
    also have "\<dots> < 2 ^ 52 * (2 * of_int M)" using t52 M0 by simp
    finally show ?thesis by simp
  qed
  have kq: "of_int k \<le> q + 1 / 2" "q + 1 / 2 < of_int k + 1" unfolding k_def by linarith+
  define d where "d = (2 * k + 1) * int n - 2 * t"
  have dq: "(of_int d :: rat) = (of_int k + 1 / 2 - q) * (2 * of_nat n)"
    unfolding d_def q_def using n0 by (simp add: field_simps)
  have "0 < (of_int k + 1 / 2 - q) * (2 * of_nat n)" using kq(2) n0 by simp
  then have "(0::rat) < of_int d" unfolding dq .
  then have d1: "1 \<le> d" by simp
  have lower: "(2 * k - 1) * M \<le> R"
  proof -
    have "of_int ((2 * k - 1) * M) = (of_int k - 1 / 2) * (2 * of_int M :: rat)" by (simp add: field_simps)
    also have "\<dots> \<le> q * (2 * of_int M)" using kq(1) M0 by (intro mult_right_mono) simp_all
    also have "\<dots> \<le> of_int R + 1 / 2" using R(2) by linarith
    finally have "(of_int ((2 * k - 1) * M) :: rat) < of_int (R + 1)" by simp
    then have "(2 * k - 1) * M < R + 1" by (simp only: of_int_less_iff)
    then show ?thesis by simp
  qed
  have upper: "R < (2 * k + 1) * M"
  proof -
    have gap: "(of_int ((2 * k + 1) * M) :: rat) - q * (2 * of_int M) = of_int d * of_int M / of_nat n"
      unfolding dq using n0 by (simp add: field_simps)
    define a :: rat where "a = of_int M / of_nat n"
    have a0: "0 \<le> a" using M0 n0 unfolding a_def by simp
    have d1': "(1::rat) \<le> of_int d" using d1 by simp
    have "1 * a \<le> of_int d * a" using d1' a0 by (rule mult_right_mono)
    then have da: "a \<le> of_int d * of_int M / of_nat n" unfolding a_def by simp
    have "(1::rat) / 2 < a" using nM n0 unfolding a_def by (simp add: field_simps)
    also note da
    finally have "(1::rat) / 2 < of_int ((2 * k + 1) * M) - q * (2 * of_int M)" unfolding gap by simp
    with R(2) have "(of_int R :: rat) < of_int ((2 * k + 1) * M)" by linarith
    then show ?thesis by (simp only: of_int_less_iff)
  qed
  have "\<lfloor>of_int R / (2 * of_int M) + 1 / 2 :: rat\<rfloor> = k"
  proof (rule floor_unique)
    have "(of_int ((2 * k - 1) * M) :: rat) \<le> of_int R" using lower by (simp only: of_int_le_iff)
    then show "of_int k \<le> of_int R / (2 * of_int M) + 1 / (2::rat)"
      using M0 by (simp add: field_simps)
    have "(of_int R :: rat) < of_int ((2 * k + 1) * M)" using upper by (simp only: of_int_less_iff)
    then show "of_int R / (2 * of_int M) + 1 / (2::rat) < of_int k + 1"
      using M0 by (simp add: field_simps)
  qed
  then have "Math_round (toDouble q) = Finite (of_int k)" by (simp add: Math_round_def R(1))
  then show ?thesis using n(1) unfolding k_def q_def by (simp add: dividedBy_def)
qed

text \<open>Integers keep their sign, and stay integers, when they are rounded to a double.\<close>

lemma toDouble_integer:
  assumes "k \<noteq> 0"
  shows "(0 < k \<longrightarrow> toDouble (of_int k) = PosInf \<or> (\<exists>m. 0 < m \<and> toDouble (of_int k) = Finite (of_int m))) \<and>
         (k < 0 \<longrightarrow> toDouble (of_int k) = NegInf \<or> (\<exists>m. m < 0 \<and> toDouble (of_int k) = Finite (of_int m)))"
proof -
  define x :: rat where "x = of_int k"
  define e where "e = binade \<bar>x\<bar>"
  define u :: rat where "u = 2 powi (max (e - 52) (- 1074))"
  define r where "r = roundHalfEven (\<bar>x\<bar> / u)"
  have x0: "x \<noteq> 0" using assms unfolding x_def by simp
  have ax: "0 < \<bar>x\<bar>" using x0 by simp
  have x1: "1 \<le> \<bar>x\<bar>" using assms unfolding x_def by (simp flip: of_int_abs)
  have u0: "0 < u" unfolding u_def by (rule powi_pos)
  from binade_bounds [OF ax] have b: "2 powi e \<le> \<bar>x\<bar>" "\<bar>x\<bar> < 2 powi (e + 1)" unfolding e_def by simp_all
  have "(2::rat) powi 0 < 2 powi (e + 1)" using x1 b(2) by simp
  then have "0 < e + 1" by (rule powi_less_cancel)
  then have e0: "0 \<le> e" by simp
  have td: "toDouble x = (if 2 ^ 1024 \<le> of_int r * u then (if 0 < x then PosInf else NegInf)
                          else Finite (if 0 < x then of_int r * u else - (of_int r * u)))"
    using x0 unfolding toDouble_def Let_def e_def [symmetric] u_def [symmetric] r_def [symmetric] by simp
  have "\<exists>m. 0 < m \<and> of_int r * u = of_int m"
  proof (cases "e \<le> 52")
    case True
    then have "\<bar>x\<bar> < 2 powi 53"
      using b(2) power_int_increasing [of "e + 1" 53 "2::rat"] by simp
    then have "\<bar>x\<bar> < 2 ^ 53" by (simp only: power_int_numeral)
    then have "\<bar>k\<bar> < 2 ^ 53" unfolding x_def
      by (metis of_int_abs of_int_less_iff of_int_numeral of_int_power)
    from toDouble_of_int [OF this] have "toDouble x = Finite x" unfolding x_def .
    then have "(if 0 < x then of_int r * u else - (of_int r * u)) = x"
      unfolding td by (simp split: if_splits)
    then have "of_int r * u = \<bar>x\<bar>" by (simp split: if_splits)
    then have "of_int r * u = of_int \<bar>k\<bar>" unfolding x_def by simp
    moreover have "0 < \<bar>k\<bar>" using assms by simp
    ultimately show ?thesis by blast
  next
    case False
    define j where "j = nat (e - 52)"
    have mx: "max (e - 52) (- 1074) = int j" using False unfolding j_def by simp
    have uj: "u = of_int (2 ^ j)" unfolding u_def mx by (simp only: power_int_of_nat) simp
    have "int j \<le> e" using False unfolding j_def by simp
    then have "(2::rat) powi (int j) \<le> 2 powi e" by (rule power_int_increasing) simp
    then have "u \<le> \<bar>x\<bar>" using b(1) unfolding u_def mx by simp
    then have "1 \<le> \<bar>x\<bar> / u" using u0 by (simp add: field_simps)
    moreover have "\<bar>of_int r - \<bar>x\<bar> / u\<bar> \<le> 1 / 2" unfolding r_def by (rule roundHalfEven_near)
    ultimately have "(0::rat) < of_int r" by linarith
    then have r0: "0 < r" by simp
    have "of_int r * u = of_int (r * 2 ^ j)" unfolding uj by simp
    moreover have "0 < r * 2 ^ j" using r0 by simp
    ultimately show ?thesis by blast
  qed
  then obtain m where m: "0 < m" "of_int r * u = of_int m" by blast
  have pos: "0 < k \<Longrightarrow> 0 < x" and neg: "k < 0 \<Longrightarrow> \<not> 0 < x" unfolding x_def by simp_all
  show ?thesis
  proof (intro conjI impI)
    assume "0 < k"
    from pos [OF this] have "toDouble x = PosInf \<or> toDouble x = Finite (of_int m)"
      unfolding td m(2) by simp
    with m(1) show "toDouble (of_int k) = PosInf \<or> (\<exists>m. 0 < m \<and> toDouble (of_int k) = Finite (of_int m))"
      unfolding x_def by blast
  next
    assume "k < 0"
    from neg [OF this] have "toDouble x = NegInf \<or> toDouble x = Finite (of_int (- m))"
      unfolding td m(2) by simp
    moreover have "- m < 0" using m(1) by simp
    ultimately show "toDouble (of_int k) = NegInf \<or> (\<exists>m. m < 0 \<and> toDouble (of_int k) = Finite (of_int m))"
      unfolding x_def by blast
  qed
qed

lemma orderOf_toDouble: "orderOf (toDouble (of_int k)) = sgn k"
proof (cases "k = 0")
  case True
  then show ?thesis by (simp add: toDouble_def orderOf_def)
next
  case False
  show ?thesis
  proof (cases "0 < k")
    case True
    with toDouble_integer [OF False]
    have "toDouble (of_int k) = PosInf \<or> (\<exists>m. 0 < m \<and> toDouble (of_int k) = Finite (of_int m))"
      by blast
    with True show ?thesis by (auto simp: orderOf_def)
  next
    case f: False
    with False have n: "k < 0" by simp
    with toDouble_integer [OF False]
    have "toDouble (of_int k) = NegInf \<or> (\<exists>m. m < 0 \<and> toDouble (of_int k) = Finite (of_int m))"
      by blast
    with n show ?thesis by (auto simp: orderOf_def)
  qed
qed

section \<open>Properties of the aggregator\<close>

lemma parseInt_pagesOf:
  "parseInt (orElse (getProp b ''pages'') (Num 0)) \<noteq> None \<Longrightarrow>
   parseInt (orElse (getProp b ''pages'') (Num 0)) = Some (pagesOf b)"
  by (auto simp: pagesOf_def)

text \<open>While the absolute page counts sum to less than \<open>2^53\<close>, the sum of \<^verbatim>\<open>reduce\<close> is exact.\<close>

lemma foldl_addPages:
  assumes "\<forall>b \<in> set bs. parseInt (orElse (getProp b ''pages'') (Num 0)) \<noteq> None"
    and "\<bar>a\<bar> + sum_list (map (\<lambda>b. \<bar>pagesOf b\<bar>) bs) < 2 ^ 53"
  shows "foldl addPages (Finite (of_int a)) bs = Finite (of_int (a + sum_list (map pagesOf bs)))"
  using assms
proof (induction bs arbitrary: a)
  case Nil
  show ?case by simp
next
  case (Cons b bs)
  define p where "p = pagesOf b"
  define r where "r = sum_list (map (\<lambda>b. \<bar>pagesOf b\<bar>) bs)"
  have r0: "0 \<le> r" unfolding r_def by (rule sum_list_nonneg) auto
  from Cons.prems(1) have pb: "parseInt (orElse (getProp b ''pages'') (Num 0)) = Some p"
    unfolding p_def by (simp add: parseInt_pagesOf)
  from Cons.prems(2) have bound: "\<bar>a\<bar> + \<bar>p\<bar> + r < 2 ^ 53" unfolding p_def r_def by simp
  have "\<bar>p\<bar> < 2 ^ 53" using bound r0 by linarith
  then have tp: "toDouble (of_int p) = Finite (of_int p)" by (rule toDouble_of_int)
  have "\<bar>a + p\<bar> < 2 ^ 53" using bound r0 by linarith
  then have "numberPlus (Finite (of_int a)) (Finite (of_int p)) = Finite (of_int (a + p))"
    by (rule numberPlus_ints)
  then have step: "addPages (Finite (of_int a)) b = Finite (of_int (a + p))"
    by (simp add: addPages_def pb numberOf_def tp)
  from Cons.prems(1) have rest: "\<forall>b \<in> set bs. parseInt (orElse (getProp b ''pages'') (Num 0)) \<noteq> None"
    by simp
  have "\<bar>a + p\<bar> + r < 2 ^ 53" using bound by linarith
  from Cons.IH [OF rest this [unfolded r_def]] show ?case
    by (simp add: step p_def add.assoc)
qed

lemma floor_quotient:
  assumes "0 < n"
  shows "\<lfloor>of_int t / of_nat n + 1 / 2 :: rat\<rfloor> = (2 * t + int n) div (2 * int n)"
proof -
  have "(of_int t / of_nat n + 1 / 2 :: rat) = of_int (2 * t + int n) / of_int (2 * int n)"
    using assms by (simp add: field_simps)
  then show ?thesis by (simp only: floor_divide_of_int_eq)
qed

text \<open>
  C8 (as amended): the average of the empty collection is 0; for a non-empty collection
  (an array has fewer than \<open>2^32\<close> elements) whose page values \<^verbatim>\<open>parseInt\<close> reads and
  whose absolute page counts sum to less than \<open>2^52\<close>, the total is exact and the
  average is the integer nearest to the total divided by the number of records, the
  upper one at a tie, which is \<open>(2 * total + n) div (2 * n)\<close>.
\<close>

theorem calculateAverageBookLength_rounds_half_up:
  "calculateAverageBookLength [] = Finite 0 \<and>
   (bs \<noteq> [] \<and> length bs < 2 ^ 32 \<and>
    (\<forall>b \<in> set bs. parseInt (orElse (getProp b ''pages'') (Num 0)) \<noteq> None) \<and>
    sum_list (map (\<lambda>b. \<bar>pagesOf b\<bar>) bs) < 2 ^ 52 \<longrightarrow>
      (\<exists>r t. t = sum_list (map pagesOf bs) \<and>
         totalPages bs = Finite (of_int t) \<and>
         calculateAverageBookLength bs = Finite (of_int r) \<and>
         of_int r - 1 / 2 \<le> (of_int t / of_nat (length bs) :: rat) \<and>
         (of_int t / of_nat (length bs) :: rat) < of_int r + 1 / 2 \<and>
         r = (2 * t + int (length bs)) div (2 * int (length bs))))"
proof (intro conjI impI)
  show "calculateAverageBookLength [] = Finite 0" by (simp add: calculateAverageBookLength_def)
next
  assume h: "bs \<noteq> [] \<and> length bs < 2 ^ 32 \<and>
    (\<forall>b \<in> set bs. parseInt (orElse (getProp b ''pages'') (Num 0)) \<noteq> None) \<and>
    sum_list (map (\<lambda>b. \<bar>pagesOf b\<bar>) bs) < 2 ^ 52"
  define t where "t = sum_list (map pagesOf bs)"
  define n where "n = length bs"
  define r where "r = \<lfloor>of_int t / of_nat n + 1 / 2 :: rat\<rfloor>"
  from h have n: "0 < n" "n < 2 ^ 32" unfolding n_def by simp_all
  from h have parse: "\<forall>b \<in> set bs. parseInt (orElse (getProp b ''pages'') (Num 0)) \<noteq> None"
    and small: "sum_list (map (\<lambda>b. \<bar>pagesOf b\<bar>) bs) < 2 ^ 52" by simp_all
  have "\<bar>0::int\<bar> + sum_list (map (\<lambda>b. \<bar>pagesOf b\<bar>) bs) < 2 ^ 53" using small by simp
  from foldl_addPages [OF parse this] have tot: "totalPages bs = Finite (of_int t)"
    unfolding totalPages_def t_def by simp
  have "\<bar>t\<bar> \<le> sum_list (map (\<lambda>b. \<bar>pagesOf b\<bar>) bs)"
    unfolding t_def using sum_list_abs [of "map pagesOf bs"] by (simp add: comp_def)
  with small have t52: "\<bar>t\<bar> < 2 ^ 52" by linarith
  from round_quotient [OF n t52] have avg: "calculateAverageBookLength bs = Finite (of_int r)"
    using n(1) unfolding r_def n_def by (simp add: calculateAverageBookLength_def tot)
  have near: "of_int r - 1 / 2 \<le> (of_int t / of_nat n :: rat) \<and>
      (of_int t / of_nat n :: rat) < of_int r + 1 / 2"
    unfolding r_def by linarith
  have form: "r = (2 * t + int n) div (2 * int n)"
    unfolding r_def using n(1) by (rule floor_quotient)
  show "\<exists>r t. t = sum_list (map pagesOf bs) \<and>
         totalPages bs = Finite (of_int t) \<and>
         calculateAverageBookLength bs = Finite (of_int r) \<and>
         of_int r - 1 / 2 \<le> (of_int t / of_nat (length bs) :: rat) \<and>
         (of_int t / of_nat (length bs) :: rat) < of_int r + 1 / 2 \<and>
         r = (2 * t + int (length bs)) div (2 * int (length bs))"
    using t_def tot avg near form unfolding n_def by blast
qed

lemma parseInt_pages_examples:
  "parseInt (orElse (Str ''100'') (Num 0)) = Some 100"
  "parseInt (orElse (Str ''200'') (Num 0)) = Some 200"
  "parseInt (orElse (Str ''201'') (Num 0)) = Some 201"
  "parseInt (orElse (Str ''300'') (Num 0)) = Some 300"
  "parseInt (orElse (Str ''9007199254740993'') (Num 0)) = Some 9007199254740993"
  "parseInt (orElse (Str ''2500000000000000'') (Num 0)) = Some 2500000000000000"
  "parseInt (orElse (Str ''2500000000000001'') (Num 0)) = Some 2500000000000001"
  "parseInt (orElse (Str ''many'') (Num 0)) = None"
  by (simp_all add: parseInt_def orElse_def parseIntString_def readSign_def isSpace_def
      isDigit_def digitsValue_def digitValue_def)

theorem calculateAverageBookLength_rounds_half_up_witness:
  "[[(''pages'', Str ''100'')], [(''pages'', Str ''201'')]] \<noteq> [] \<and>
   length [[(''pages'', Str ''100'')], [(''pages'', Str ''201'')]] < 2 ^ 32 \<and>
   parseInt (orElse (getProp [(''pages'', Str ''100'')] ''pages'') (Num 0)) \<noteq> None \<and>
   parseInt (orElse (getProp [(''pages'', Str ''201'')] ''pages'') (Num 0)) \<noteq> None \<and>
   \<bar>pagesOf [(''pages'', Str ''100'')]\<bar> + \<bar>pagesOf [(''pages'', Str ''201'')]\<bar> < 2 ^ 52 \<and>
   calculateAverageBookLength [[(''pages'', Str ''100'')], [(''pages'', Str ''201'')]] = Finite 151 \<and>
   calculateAverageBookLength
     [[(''pages'', Str ''100'')], [(''pages'', Str ''200'')], [(''pages'', Str ''300'')]] = Finite 200"
proof -
  have p1: "parseInt (orElse (getProp [(''pages'', Str ''100'')] ''pages'') (Num 0)) = Some 100"
    and p2: "parseInt (orElse (getProp [(''pages'', Str ''201'')] ''pages'') (Num 0)) = Some 201"
    and p3: "parseInt (orElse (getProp [(''pages'', Str ''200'')] ''pages'') (Num 0)) = Some 200"
    and p4: "parseInt (orElse (getProp [(''pages'', Str ''300'')] ''pages'') (Num 0)) = Some 300"
    by (simp_all add: getProp_def parseInt_pages_examples)
  have q: "pagesOf [(''pages'', Str ''100'')] = 100" "pagesOf [(''pages'', Str ''201'')] = 201"
    "pagesOf [(''pages'', Str ''200'')] = 200" "pagesOf [(''pages'', Str ''300'')] = 300"
    by (simp_all add: pagesOf_def p1 p2 p3 p4)
  have a: "calculateAverageBookLength [[(''pages'', Str ''100'')], [(''pages'', Str ''201'')]] = Finite 151"
    using calculateAverageBookLength_rounds_half_up
      [of "[[(''pages'', Str ''100'')], [(''pages'', Str ''201'')]]"]
    by (simp add: p1 p2 q)
  have b: "calculateAverageBookLength
     [[(''pages'', Str ''100'')], [(''pages'', Str ''200'')], [(''pages'', Str ''300'')]] = Finite 200"
    using calculateAverageBookLength_rounds_half_up
      [of "[[(''pages'', Str ''100'')], [(''pages'', Str ''200'')], [(''pages'', Str ''300'')]]"]
    by (simp add: p1 p3 p4 q)
  show ?thesis using a b by (simp add: p1 p2 q)
qed

text \<open>
  Beyond that range the arithmetic of doubles shows. A page count of \<open>2^53 + 1\<close> is read
  as \<open>2^53\<close>; three page counts that sum to 7500000000000001 have the double quotient
  2500000000000000.5, which \<^verbatim>\<open>Math.round\<close> takes up, while the exact quotient, a third
  above 2500000000000000, is nearest to that integer; and a page value in which
  \<^verbatim>\<open>parseInt\<close> reads no digit makes the average NaN.
\<close>

lemma toDouble_in_binade:
  assumes "0 < x" "2 powi e \<le> x" "x < 2 powi (e + 1)" "- 1022 \<le> e"
  shows "toDouble x =
     (if (2::rat) ^ 1024 \<le> of_int (roundHalfEven (x / 2 powi (e - 52))) * 2 powi (e - 52) then PosInf
      else Finite (of_int (roundHalfEven (x / 2 powi (e - 52))) * 2 powi (e - 52)))"
proof -
  have ax: "\<bar>x\<bar> = x" using assms(1) by simp
  have b: "binade x = e" using assms(1,2,3) by (rule binade_unique)
  have m: "max (e - 52) (- 1074) = e - 52" using assms(4) by simp
  have x0: "x \<noteq> 0" using assms(1) by simp
  show ?thesis unfolding toDouble_def ax b m Let_def using assms(1) x0 by (simp only: if_False if_True)
qed

lemma powi_examples:
  "(2::rat) powi 53 = 2 ^ 53" "(2::rat) powi (53 + 1) = 2 ^ 54" "(2::rat) powi (53 - 52) = 2"
  "(2::rat) powi 51 = 2 ^ 51" "(2::rat) powi (51 + 1) = 2 ^ 52" "(2::rat) powi (51 - 52) = 1 / 2"
proof -
  show "(2::rat) powi 53 = 2 ^ 53" "(2::rat) powi (53 + 1) = 2 ^ 54" "(2::rat) powi (53 - 52) = 2"
    "(2::rat) powi 51 = 2 ^ 51" "(2::rat) powi (51 + 1) = 2 ^ 52"
    by (simp_all only: power_int_numeral) simp_all
  have "(2::rat) powi (- int 1) = inverse (2 ^ 1)" by (simp only: power_int_minus power_int_of_nat)
  then show "(2::rat) powi (51 - 52) = 1 / 2" by simp
qed

lemma toDouble_examples:
  "toDouble 9007199254740993 = Finite 9007199254740992"
  "toDouble 9007199254740992 = Finite 9007199254740992"
  "toDouble (7500000000000001 / 3) = Finite (5000000000000001 / 2)"
proof -
  have "toDouble 9007199254740993 =
     (if (2::rat) ^ 1024 \<le> of_int (roundHalfEven (9007199254740993 / 2 powi (53 - 52))) * 2 powi (53 - 52) then PosInf
      else Finite (of_int (roundHalfEven (9007199254740993 / 2 powi (53 - 52))) * 2 powi (53 - 52)))"
    by (rule toDouble_in_binade) (simp_all add: powi_examples)
  moreover have "\<lfloor>9007199254740993 / 2 :: rat\<rfloor> = 4503599627370496"
    by (rule floor_unique) simp_all
  then have "roundHalfEven (9007199254740993 / 2) = 4503599627370496"
    by (simp add: roundHalfEven_def Let_def)
  ultimately show "toDouble 9007199254740993 = Finite 9007199254740992" by (simp add: powi_examples)
  have "toDouble 9007199254740992 =
     (if (2::rat) ^ 1024 \<le> of_int (roundHalfEven (9007199254740992 / 2 powi (53 - 52))) * 2 powi (53 - 52) then PosInf
      else Finite (of_int (roundHalfEven (9007199254740992 / 2 powi (53 - 52))) * 2 powi (53 - 52)))"
    by (rule toDouble_in_binade) (simp_all add: powi_examples)
  moreover have "roundHalfEven (9007199254740992 / 2) = 4503599627370496"
    using roundHalfEven_of_int [of 4503599627370496] by simp
  ultimately show "toDouble 9007199254740992 = Finite 9007199254740992" by (simp add: powi_examples)
  have "toDouble (7500000000000001 / 3) =
     (if (2::rat) ^ 1024 \<le> of_int (roundHalfEven (7500000000000001 / 3 / 2 powi (51 - 52))) * 2 powi (51 - 52) then PosInf
      else Finite (of_int (roundHalfEven (7500000000000001 / 3 / 2 powi (51 - 52))) * 2 powi (51 - 52)))"
    by (rule toDouble_in_binade) (simp_all add: powi_examples)
  moreover have "\<lfloor>15000000000000002 / 3 :: rat\<rfloor> = 5000000000000000"
    by (rule floor_unique) simp_all
  then have "roundHalfEven (15000000000000002 / 3) = 5000000000000001"
    by (simp add: roundHalfEven_def Let_def)
  ultimately show "toDouble (7500000000000001 / 3) = Finite (5000000000000001 / 2)"
    by (simp add: powi_examples)
qed

theorem calculateAverageBookLength_counterexample:
  "calculateAverageBookLength [[(''pages'', Str ''9007199254740993'')]] = Finite 9007199254740992 \<and>
   pagesOf [(''pages'', Str ''9007199254740993'')] = 9007199254740993 \<and>
   calculateAverageBookLength
     [[(''pages'', Str ''2500000000000000'')], [(''pages'', Str ''2500000000000000'')],
      [(''pages'', Str ''2500000000000001'')]] = Finite 2500000000000001 \<and>
   \<lfloor>(2500000000000000 + 2500000000000000 + 2500000000000001) / 3 + 1 / 2 :: rat\<rfloor> = 2500000000000000 \<and>
   calculateAverageBookLength [[(''pages'', Str ''many'')]] = NaN"
proof -
  have t: "toDouble 2500000000000000 = Finite 2500000000000000"
    "toDouble 5000000000000000 = Finite 5000000000000000"
    "toDouble 2500000000000001 = Finite 2500000000000001"
    "toDouble 7500000000000001 = Finite 7500000000000001"
    using toDouble_of_int [of 2500000000000000] toDouble_of_int [of 5000000000000000]
      toDouble_of_int [of 2500000000000001] toDouble_of_int [of 7500000000000001]
    by simp_all
  have f1: "\<lfloor>9007199254740992 + 1 / 2 :: rat\<rfloor> = 9007199254740992"
    by (rule floor_unique) simp_all
  have f2: "\<lfloor>5000000000000001 / 2 + 1 / 2 :: rat\<rfloor> = 2500000000000001"
    by (rule floor_unique) simp_all
  have f3: "\<lfloor>(2500000000000000 + 2500000000000000 + 2500000000000001) / 3 + 1 / 2 :: rat\<rfloor> =
      2500000000000000"
    by (rule floor_unique) simp_all
  have r1: "Math_round (Finite 9007199254740992) = Finite 9007199254740992"
    unfolding Math_round_def number.case f1 by simp
  have r2: "Math_round (Finite (5000000000000001 / 2)) = Finite 2500000000000001"
    unfolding Math_round_def number.case f2 by simp
  have t1: "totalPages [[(''pages'', Str ''9007199254740993'')]] = Finite 9007199254740992"
    by (simp add: totalPages_def addPages_def getProp_def parseInt_pages_examples numberOf_def
        toDouble_examples)
  have q1: "dividedBy (Finite 9007199254740992) (Suc 0) = Finite 9007199254740992"
    by (simp add: dividedBy_def toDouble_examples)
  have l1: "length [[(''pages'', Str ''9007199254740993'')]] = Suc 0" by simp
  have l3: "length [[(''pages'', Str ''2500000000000000'')], [(''pages'', Str ''2500000000000000'')],
      [(''pages'', Str ''2500000000000001'')]] = 3" by simp
  have a: "calculateAverageBookLength [[(''pages'', Str ''9007199254740993'')]] = Finite 9007199254740992"
    unfolding calculateAverageBookLength_def t1 l1 by (simp add: q1 r1)
  have b: "pagesOf [(''pages'', Str ''9007199254740993'')] = 9007199254740993"
    by (simp add: pagesOf_def getProp_def parseInt_pages_examples)
  have t2: "totalPages
     [[(''pages'', Str ''2500000000000000'')], [(''pages'', Str ''2500000000000000'')],
      [(''pages'', Str ''2500000000000001'')]] = Finite 7500000000000001"
    by (simp add: totalPages_def addPages_def getProp_def parseInt_pages_examples numberOf_def t)
  have q2: "dividedBy (Finite 7500000000000001) 3 = Finite (5000000000000001 / 2)"
    by (simp add: dividedBy_def toDouble_examples)
  have c: "calculateAverageBookLength
     [[(''pages'', Str ''2500000000000000'')], [(''pages'', Str ''2500000000000000'')],
      [(''pages'', Str ''2500000000000001'')]] = Finite 2500000000000001"
    unfolding calculateAverageBookLength_def t2 l3 by (simp add: q2 r2)
  have d: "calculateAverageBookLength [[(''pages'', Str ''many'')]] = NaN"
    by (simp add: calculateAverageBookLength_def totalPages_def addPages_def getProp_def
        parseInt_pages_examples numberOf_def dividedBy_def Math_round_def)
  from a b c f3 d show ?thesis by (intro conjI)
qed

section \<open>Properties of the repository\<close>

lemma findIndex_None: "(findIndex p xs = None) = (\<forall>x \<in> set xs. \<not> p x)"
  by (induction xs) auto

lemma findIndex_Some:
  "findIndex p xs = Some i \<Longrightarrow> i < length xs \<and> p (xs ! i)"
proof (induction xs arbitrary: i)
  case Nil
  then show ?case by simp
next
  case (Cons x xs)
  show ?case
  proof (cases "p x")
    case True
    with Cons.prems show ?thesis by simp
  next
    case False
    with Cons.prems obtain j where j: "findIndex p xs = Some j" and i: "i = Suc j" by auto
    from Cons.IH [OF j] show ?thesis by (simp add: i)
  qed
qed

lemma getProp_update:
  "getProp (AList.update k v al) k' = (if k' = k then v else getProp al k')"
  by (simp add: getProp_def update_conv')

lemma id_present_iff:
  "(Str bookId \<in> set (map (\<lambda>b. getProp b ''id'') (collection st))) =
   (\<exists>r \<in> set (arrayAt st (books st)). getProp (objectAt st r) ''id'' = Str bookId)"
  by (auto simp: collection_def image_iff) metis

lemma updateBook_absent:
  assumes "Str bookId \<notin> set (map (\<lambda>b. getProp b ''id'') (collection st))"
  shows "updateBook now bookId updates st = (None, st)"
proof -
  have "findIndex (\<lambda>r. getProp (objectAt st r) ''id'' = Str bookId) (arrayAt st (books st)) = None"
    using assms unfolding id_present_iff findIndex_None by simp
  then show ?thesis by (simp add: updateBook_def)
qed

lemma updateBook_present:
  assumes "Str bookId \<in> set (map (\<lambda>b. getProp b ''id'') (collection st))"
  shows "\<exists>i r st'. updateBook now bookId updates st = (Some r, st') \<and>
      i < length (arrayAt st (books st)) \<and>
      getProp (collection st ! i) ''id'' = Str bookId \<and>
      getProp (objectAt st' r) ''id'' = getProp (collection st ! i) ''id'' \<and>
      getProp (objectAt st' r) ''createdAt'' = getProp (collection st ! i) ''createdAt'' \<and>
      getProp (objectAt st' r) ''updatedAt'' = Str now \<and>
      books st' = books st \<and>
      arrayAt st' (books st') = (arrayAt st (books st))[i := r] \<and>
      saved st' = Some (collection st') \<and>
      (wellFormed st \<longrightarrow> collection st' = (collection st)[i := objectAt st' r])"
proof -
  define bs where "bs = arrayAt st (books st)"
  define p where "p = (\<lambda>r. getProp (objectAt st r) ''id'' = Str bookId)"
  have "findIndex p bs \<noteq> None"
    using assms unfolding id_present_iff findIndex_None p_def bs_def by simp
  then obtain i where fi: "findIndex p bs = Some i" by auto
  from findIndex_Some [OF fi] have i: "i < length bs" and pi: "p (bs ! i)" by simp_all
  define old where "old = objectAt st (bs ! i)"
  define new where "new = AList.update ''updatedAt'' (Str now)
                      (AList.update ''createdAt'' (getProp old ''createdAt'')
                        (AList.update ''id'' (getProp old ''id'')
                          (spread updates (spread old []))))"
  define st2 where "st2 = st\<lparr>objects := (objects st)(top st \<mapsto> new), top := Suc (top st),
      arrays := (arrays st)(books st \<mapsto> bs[i := top st])\<rparr>"
  have res: "updateBook now bookId updates st = (Some (top st), saveBooks st2)"
    using fi unfolding updateBook_def bs_def [symmetric] p_def [symmetric]
    by (simp add: Let_def newObject_def old_def new_def st2_def)
  have coll_i: "collection st ! i = old" using i by (simp add: collection_def bs_def old_def)
  have obj: "objectAt (saveBooks st2) (top st) = new"
    by (simp add: saveBooks_def st2_def objectAt_def)
  have arr: "arrayAt (saveBooks st2) (books (saveBooks st2)) = bs[i := top st]"
    by (simp add: saveBooks_def st2_def arrayAt_def)
  have sav: "saved (saveBooks st2) = Some (collection (saveBooks st2))"
    by (simp add: saveBooks_def collection_def objectAt_def arrayAt_def)
  have wf: "collection (saveBooks st2) = (collection st)[i := new]" if "wellFormed st"
  proof -
    have other: "objectAt (saveBooks st2) r = objectAt st r" if "r \<in> set bs" for r
    proof -
      from that \<open>wellFormed st\<close> have "r \<noteq> top st" by (auto simp: wellFormed_def bs_def)
      then show ?thesis by (simp add: saveBooks_def st2_def objectAt_def)
    qed
    have "collection (saveBooks st2) = map (objectAt (saveBooks st2)) (bs[i := top st])"
      unfolding collection_def arr ..
    also have "\<dots> = (map (objectAt (saveBooks st2)) bs)[i := new]"
      by (simp add: map_update obj)
    also have "map (objectAt (saveBooks st2)) bs = map (objectAt st) bs"
      using other by simp
    finally show ?thesis by (simp add: collection_def bs_def)
  qed
  have "getProp old ''id'' = Str bookId" using pi by (simp add: p_def old_def)
  moreover have "getProp new ''id'' = getProp old ''id''"
    and "getProp new ''createdAt'' = getProp old ''createdAt''"
    and "getProp new ''updatedAt'' = Str now"
    by (simp_all add: new_def getProp_update)
  moreover have "books (saveBooks st2) = books st" by (simp add: saveBooks_def st2_def)
  ultimately show ?thesis
    using res i coll_i obj arr sav wf unfolding bs_def by (metis (no_types, lifting))
qed

text \<open>
  C3: when the id is the \<^verbatim>\<open>id\<close> of no record of the collection, \<^verbatim>\<open>updateBook\<close>
  returns \<^verbatim>\<open>null\<close> and the state (the store, the canonical array, what is saved) is
  the same; when a record has the id, the record that replaces the first such record has
  that record's \<^verbatim>\<open>id\<close> and \<^verbatim>\<open>createdAt\<close>, whatever \<open>updates\<close> holds for them, and
  \<^verbatim>\<open>updatedAt\<close> is the current time.
\<close>

theorem updateBook_preserves_identity:
  "(Str bookId \<notin> set (map (\<lambda>b. getProp b ''id'') (collection st)) \<longrightarrow>
      updateBook now bookId updates st = (None, st)) \<and>
   (Str bookId \<in> set (map (\<lambda>b. getProp b ''id'') (collection st)) \<longrightarrow>
      (\<exists>i r st'. updateBook now bookId updates st = (Some r, st') \<and>
         i < length (arrayAt st (books st)) \<and>
         getProp (collection st ! i) ''id'' = Str bookId \<and>
         getProp (objectAt st' r) ''id'' = getProp (collection st ! i) ''id'' \<and>
         getProp (objectAt st' r) ''createdAt'' = getProp (collection st ! i) ''createdAt'' \<and>
         getProp (objectAt st' r) ''updatedAt'' = Str now \<and>
         books st' = books st \<and>
         arrayAt st' (books st') = (arrayAt st (books st))[i := r] \<and>
         saved st' = Some (collection st') \<and>
         (wellFormed st \<longrightarrow> collection st' = (collection st)[i := objectAt st' r])))"
  using updateBook_absent updateBook_present by blast

lemma oneBook_ids: "map (\<lambda>b. getProp b ''id'') (collection oneBook) = [Str ''book_1'']"
  by (simp add: collection_def oneBook_def arrayAt_def objectAt_def dune_def getProp_def)

theorem updateBook_preserves_identity_witness:
  "Str ''book_2'' \<notin> set (map (\<lambda>b. getProp b ''id'') (collection oneBook)) \<and>
   updateBook ''2025-03-02T08:00:00.000Z'' ''book_2'' [(''title'', Str ''Emma'')] oneBook = (None, oneBook) \<and>
   Str ''book_1'' \<in> set (map (\<lambda>b. getProp b ''id'') (collection oneBook)) \<and>
   wellFormed oneBook \<and>
   (\<exists>r st'. updateBook ''2025-03-02T08:00:00.000Z'' ''book_1''
              [(''title'', Str ''Emma''), (''id'', Str ''book_9''), (''createdAt'', Null)] oneBook = (Some r, st') \<and>
      getProp (objectAt st' r) ''id'' = Str ''book_1'' \<and>
      getProp (objectAt st' r) ''createdAt'' = Str ''2025-03-01T10:00:00.000Z'' \<and>
      getProp (objectAt st' r) ''updatedAt'' = Str ''2025-03-02T08:00:00.000Z'' \<and>
      collection st' = [objectAt st' r])"
proof -
  have absent: "Str ''book_2'' \<notin> set (map (\<lambda>b. getProp b ''id'') (collection oneBook))"
    unfolding oneBook_ids by simp
  have present: "Str ''book_1'' \<in> set (map (\<lambda>b. getProp b ''id'') (collection oneBook))"
    unfolding oneBook_ids by simp
  have wf: "wellFormed oneBook" by (simp add: wellFormed_def oneBook_def arrayAt_def)
  have coll: "collection oneBook = [dune]"
    by (simp add: collection_def oneBook_def arrayAt_def objectAt_def)
  have len: "length (arrayAt oneBook (books oneBook)) = 1"
    by (simp add: oneBook_def arrayAt_def)
  have d: "getProp dune ''id'' = Str ''book_1''"
    "getProp dune ''createdAt'' = Str ''2025-03-01T10:00:00.000Z''"
    by (simp_all add: dune_def getProp_def)
  note upd = updateBook_preserves_identity [of _ oneBook "''2025-03-02T08:00:00.000Z''"]
  from upd [of "''book_2''" "[(''title'', Str ''Emma'')]"] absent
  have 1: "updateBook ''2025-03-02T08:00:00.000Z'' ''book_2'' [(''title'', Str ''Emma'')] oneBook = (None, oneBook)"
    by blast
  from upd [of "''book_1''" "[(''title'', Str ''Emma''), (''id'', Str ''book_9''), (''createdAt'', Null)]"]
    present wf
  obtain i r st' where u: "updateBook ''2025-03-02T08:00:00.000Z'' ''book_1''
              [(''title'', Str ''Emma''), (''id'', Str ''book_9''), (''createdAt'', Null)] oneBook = (Some r, st')"
    and i: "i < length (arrayAt oneBook (books oneBook))"
    and f: "getProp (objectAt st' r) ''id'' = getProp (collection oneBook ! i) ''id''"
      "getProp (objectAt st' r) ''createdAt'' = getProp (collection oneBook ! i) ''createdAt''"
      "getProp (objectAt st' r) ''updatedAt'' = Str ''2025-03-02T08:00:00.000Z''"
    and c: "collection st' = (collection oneBook)[i := objectAt st' r]"
    by blast
  from i len have i0: "i = 0" by simp
  have "getProp (objectAt st' r) ''id'' = Str ''book_1''"
    "getProp (objectAt st' r) ''createdAt'' = Str ''2025-03-01T10:00:00.000Z''"
    "collection st' = [objectAt st' r]"
    using f c by (simp_all add: i0 coll d)
  with u f(3) have "\<exists>r st'. updateBook ''2025-03-02T08:00:00.000Z'' ''book_1''
              [(''title'', Str ''Emma''), (''id'', Str ''book_9''), (''createdAt'', Null)] oneBook = (Some r, st') \<and>
      getProp (objectAt st' r) ''id'' = Str ''book_1'' \<and>
      getProp (objectAt st' r) ''createdAt'' = Str ''2025-03-01T10:00:00.000Z'' \<and>
      getProp (objectAt st' r) ''updatedAt'' = Str ''2025-03-02T08:00:00.000Z'' \<and>
      collection st' = [objectAt st' r]"
    by blast
  with absent 1 present wf show ?thesis by (intro conjI)
qed

subsection \<open>The snapshot of getBooks\<close>

lemma mutate_ArrayWrite_frame:
  assumes "snap \<noteq> a"
  shows "books (mutate snap s (ArrayWrite f)) = books s"
    and "arrays (mutate snap s (ArrayWrite f)) a = arrays s a"
    and "objects (mutate snap s (ArrayWrite f)) = objects s"
    and "saved (mutate snap s (ArrayWrite f)) = saved s"
  using assms by simp_all

lemma mutateAll_arrayWrites_frame:
  assumes "snap \<noteq> a" and "arrayWrites ms"
  shows "books (mutateAll snap ms s) = books s \<and> arrays (mutateAll snap ms s) a = arrays s a \<and>
         objects (mutateAll snap ms s) = objects s \<and> saved (mutateAll snap ms s) = saved s"
  using assms(2)
proof (induction ms arbitrary: s)
  case Nil
  show ?case by (simp add: mutateAll_def)
next
  case (Cons m ms)
  from Cons.prems obtain f where m: "m = ArrayWrite f" and rest: "arrayWrites ms"
    by (cases m) (simp_all add: arrayWrites_def)
  have step: "mutateAll snap (m # ms) s = mutateAll snap ms (mutate snap s m)"
    by (simp add: mutateAll_def)
  show ?case
    unfolding step using Cons.IH [OF rest, of "mutate snap s m"]
      mutate_ArrayWrite_frame [OF assms(1), of s f]
    by (simp add: m)
qed

lemma collection_cong:
  assumes "books s' = books s" and "arrays s' (books s) = arrays s (books s)"
    and "objects s' = objects s"
  shows "collection s' = collection s"
  using assms by (simp add: collection_def arrayAt_def objectAt_def)

text \<open>
  C9 (as amended): \<^verbatim>\<open>getBooks\<close> returns a new array with the elements of the canonical
  one, and whatever a caller does to that array itself (adding, removing, replacing or
  reordering elements) leaves the canonical array, the records and what is saved as they
  were.
\<close>

theorem getBooks_array_is_a_copy:
  "books st < top st \<and> getBooks st = (snap, st1) \<and> arrayWrites ms \<longrightarrow>
     snap \<noteq> books st \<and>
     arrayAt st1 snap = arrayAt st (books st) \<and>
     collection st1 = collection st \<and>
     books (mutateAll snap ms st1) = books st \<and>
     arrayAt (mutateAll snap ms st1) (books st) = arrayAt st (books st) \<and>
     objects (mutateAll snap ms st1) = objects st \<and>
     saved (mutateAll snap ms st1) = saved st \<and>
     collection (mutateAll snap ms st1) = collection st"
proof (intro impI)
  assume h: "books st < top st \<and> getBooks st = (snap, st1) \<and> arrayWrites ms"
  then have snap: "snap = top st"
    and st1: "st1 = st\<lparr>arrays := (arrays st)(top st \<mapsto> arrayAt st (books st)), top := Suc (top st)\<rparr>"
    by (auto simp: getBooks_def newArray_def)
  from h have ne: "snap \<noteq> books st" by (simp add: snap)
  have copy: "arrayAt st1 snap = arrayAt st (books st)" by (simp add: st1 snap arrayAt_def)
  have b1: "books st1 = books st" and o1: "objects st1 = objects st" and s1: "saved st1 = saved st"
    and a1: "arrays st1 (books st) = arrays st (books st)"
    using ne by (simp_all add: st1 snap)
  from mutateAll_arrayWrites_frame [OF ne, of ms st1] h
  have f: "books (mutateAll snap ms st1) = books st"
    "arrays (mutateAll snap ms st1) (books st) = arrays st (books st)"
    "objects (mutateAll snap ms st1) = objects st"
    "saved (mutateAll snap ms st1) = saved st"
    by (simp_all add: b1 o1 s1 a1)
  have c1: "collection st1 = collection st" using b1 a1 o1 by (rule collection_cong)
  have c2: "collection (mutateAll snap ms st1) = collection st" using f(1,2,3) by (rule collection_cong)
  have a2: "arrayAt (mutateAll snap ms st1) (books st) = arrayAt st (books st)"
    by (simp add: arrayAt_def f(2))
  from ne copy c1 f a2 c2 show "snap \<noteq> books st \<and>
     arrayAt st1 snap = arrayAt st (books st) \<and>
     collection st1 = collection st \<and>
     books (mutateAll snap ms st1) = books st \<and>
     arrayAt (mutateAll snap ms st1) (books st) = arrayAt st (books st) \<and>
     objects (mutateAll snap ms st1) = objects st \<and>
     saved (mutateAll snap ms st1) = saved st \<and>
     collection (mutateAll snap ms st1) = collection st"
    by (intro conjI)
qed

lemma getBooks_oneBook:
  "getBooks oneBook = (2, oneBook\<lparr>arrays := (arrays oneBook)(2 \<mapsto> [0]), top := 3\<rparr>)"
  by (simp add: getBooks_def newArray_def oneBook_def arrayAt_def)

theorem getBooks_array_is_a_copy_witness:
  "books oneBook < top oneBook \<and>
   getBooks oneBook = (2, oneBook\<lparr>arrays := (arrays oneBook)(2 \<mapsto> [0]), top := 3\<rparr>) \<and>
   arrayWrites [ArrayWrite (\<lambda>xs. xs @ [5]), ArrayWrite rev, ArrayWrite (\<lambda>xs. [])] \<and>
   collection (mutateAll 2 [ArrayWrite (\<lambda>xs. xs @ [5]), ArrayWrite rev, ArrayWrite (\<lambda>xs. [])]
      (oneBook\<lparr>arrays := (arrays oneBook)(2 \<mapsto> [0]), top := 3\<rparr>)) = [dune]"
proof -
  have a: "books oneBook < top oneBook" by (simp add: oneBook_def)
  have b: "arrayWrites [ArrayWrite (\<lambda>xs. xs @ [5]), ArrayWrite rev, ArrayWrite (\<lambda>xs. [])]"
    by (simp add: arrayWrites_def)
  have c: "collection oneBook = [dune]"
    by (simp add: collection_def oneBook_def arrayAt_def objectAt_def)
  from getBooks_array_is_a_copy [of oneBook 2
      "oneBook\<lparr>arrays := (arrays oneBook)(2 \<mapsto> [0]), top := 3\<rparr>"
      "[ArrayWrite (\<lambda>xs. xs @ [5]), ArrayWrite rev, ArrayWrite (\<lambda>xs. [])]"] a b getBooks_oneBook
  have "collection (mutateAll 2 [ArrayWrite (\<lambda>xs. xs @ [5]), ArrayWrite rev, ArrayWrite (\<lambda>xs. [])]
      (oneBook\<lparr>arrays := (arrays oneBook)(2 \<mapsto> [0]), top := 3\<rparr>)) = collection oneBook"
    by blast
  with a b c getBooks_oneBook show ?thesis by simp
qed

text \<open>
  The copy is shallow: the snapshot's elements are the repository's own record objects,
  so a write to a property of an element shows in the canonical collection.
\<close>

theorem getBooks_snapshot_counterexample:
  "fst (getBooks oneBook) = 2 \<and>
   map (\<lambda>b. getProp b ''title'') (collection oneBook) = [Str ''Dune''] \<and>
   map (\<lambda>b. getProp b ''title'')
     (collection (mutateAll 2 [FieldWrite 0 ''title'' (Str ''Emma'')] (snd (getBooks oneBook))))
     = [Str ''Emma''] \<and>
   collection (mutateAll 2 [FieldWrite 0 ''title'' (Str ''Emma'')] (snd (getBooks oneBook)))
     \<noteq> collection oneBook"
proof -
  have c: "map (\<lambda>b. getProp b ''title'') (collection oneBook) = [Str ''Dune'']"
    by (simp add: collection_def oneBook_def arrayAt_def objectAt_def dune_def getProp_def)
  have m: "map (\<lambda>b. getProp b ''title'')
     (collection (mutateAll 2 [FieldWrite 0 ''title'' (Str ''Emma'')] (snd (getBooks oneBook))))
     = [Str ''Emma'']"
    unfolding getBooks_oneBook snd_conv
    by (simp add: mutateAll_def collection_def oneBook_def arrayAt_def objectAt_def Let_def
        getProp_update)
  from c m have "collection (mutateAll 2 [FieldWrite 0 ''title'' (Str ''Emma'')] (snd (getBooks oneBook)))
     \<noteq> collection oneBook" by auto
  with c m show ?thesis by (simp add: getBooks_oneBook)
qed

section \<open>Properties of the codec\<close>

lemma checkBooks_prefix:
  "\<exists>es. fst (checkBooks i bs errs ids) = errs @ es"
proof (induction bs arbitrary: i errs ids)
  case Nil
  show ?case by simp
next
  case (Cons b bs)
  show ?case
  proof (cases "b = Null \<or> b = Undefined")
    case True
    then show ?thesis by auto
  next
    case False
    define ids' where "ids' = (if truthy (field b ''id'') then ids @ [field b ''id''] else ids)"
    from Cons.IH [of "Suc i" "errs @ bookErrors i b ids" ids']
    obtain es where "fst (checkBooks (Suc i) bs (errs @ bookErrors i b ids) ids') =
        (errs @ bookErrors i b ids) @ es" by blast
    with False show ?thesis by (simp add: ids'_def)
  qed
qed

lemma checkBooks_grows:
  assumes "errs \<noteq> []"
  shows "fst (checkBooks i bs errs ids) \<noteq> []"
  using checkBooks_prefix [of i bs errs ids] assms by auto

lemma checkBooks_defect:
  assumes "b \<in> set bs"
    and "b = Null \<or> b = Undefined \<or> (\<forall>i ids. bookErrors i b ids \<noteq> [])"
  shows "snd (checkBooks i bs errs ids) \<or> fst (checkBooks i bs errs ids) \<noteq> []"
  using assms(1)
proof (induction bs arbitrary: i errs ids)
  case Nil
  then show ?case by simp
next
  case (Cons x bs)
  show ?case
  proof (cases "x = Null \<or> x = Undefined")
    case True
    then show ?thesis by auto
  next
    case False
    show ?thesis
    proof (cases "x = b")
      case True
      with False assms(2) have "errs @ bookErrors i x ids \<noteq> []" by simp
      from checkBooks_grows [OF this] False show ?thesis by simp
    next
      case ne: False
      with Cons.prems have "b \<in> set bs" by simp
      from Cons.IH [OF this] False show ?thesis by simp
    qed
  qed
qed

lemma sameValueZero_eq: "sameValueZero x y \<Longrightarrow> x = y"
  by (cases x) (simp_all add: sameValueZero_def)

lemma checkBooks_seen:
  assumes "b \<in> set bs" and "list_ex (\<lambda>x. sameValueZero x (field b ''id'')) ids"
    and "truthy (field b ''id'')"
  shows "snd (checkBooks i bs errs ids) \<or> fst (checkBooks i bs errs ids) \<noteq> []"
  using assms
proof (induction bs arbitrary: i errs ids)
  case Nil
  then show ?case by simp
next
  case (Cons x bs)
  show ?case
  proof (cases "x = Null \<or> x = Undefined")
    case True
    then show ?thesis by auto
  next
    case False
    show ?thesis
    proof (cases "x = b")
      case True
      have "bookErrors i x ids \<noteq> []"
        using Cons.prems(2,3) by (simp add: bookErrors_def True)
      then have "errs @ bookErrors i x ids \<noteq> []" by simp
      from checkBooks_grows [OF this] False show ?thesis by simp
    next
      case ne: False
      with Cons.prems have b: "b \<in> set bs" by simp
      have "list_ex (\<lambda>x. sameValueZero x (field b ''id''))
          (if truthy (field x ''id'') then ids @ [field x ''id''] else ids)"
        using Cons.prems(2) by (auto simp: list_ex_iff)
      from Cons.IH [OF b this Cons.prems(3)] False show ?thesis by simp
    qed
  qed
qed

lemma checkBooks_duplicate:
  assumes "truthy (field a ''id'')" and "sameValueZero (field a ''id'') (field b ''id'')"
  shows "snd (checkBooks i (pre @ a # mid @ b # post) errs ids) \<or>
         fst (checkBooks i (pre @ a # mid @ b # post) errs ids) \<noteq> []"
proof (induction pre arbitrary: i errs ids)
  case Nil
  have b: "b \<in> set (mid @ b # post)" by simp
  have seen: "list_ex (\<lambda>x. sameValueZero x (field b ''id'')) (ids @ [field a ''id''])"
    using assms(2) by (simp add: list_ex_iff)
  have tb: "truthy (field b ''id'')" using assms sameValueZero_eq by force
  have "a \<noteq> Null" "a \<noteq> Undefined" using assms(1) by (auto simp: field_def)
  with checkBooks_seen [OF b seen tb] assms(1) show ?case by simp
next
  case (Cons x pre)
  show ?case
  proof (cases "x = Null \<or> x = Undefined")
    case True
    then show ?thesis by auto
  next
    case False
    with Cons.IH show ?thesis by simp
  qed
qed

lemma bookErrors_missing:
  assumes "f \<in> set requiredFields" and "\<not> truthy (field b f)"
  shows "bookErrors i b ids \<noteq> []"
proof -
  have "f \<in> set (filter (\<lambda>f. \<not> truthy (field b f)) requiredFields)" using assms by simp
  then have "filter (\<lambda>f. \<not> truthy (field b f)) requiredFields \<noteq> []"
    by (metis empty_iff empty_set)
  then show ?thesis by (simp add: bookErrors_def)
qed

lemma import_errors_of_array:
  assumes "P jsonString = Inr (Arr es)"
    and "snd (checkBooks 0 es [] []) \<or> fst (checkBooks 0 es [] []) \<noteq> []"
  shows "import_errors (importFromJSON P jsonString) \<noteq> []"
  using assms by (auto simp: importFromJSON_def split: prod.splits)

lemma import_rejects:
  "import_errors (importFromJSON P jsonString) \<noteq> [] \<longrightarrow>
     \<not> import_valid (importFromJSON P jsonString) \<and> import_data (importFromJSON P jsonString) = None"
  by (auto simp: importFromJSON_def split: sum.splits jsval.splits prod.splits)

lemma import_accepts:
  "import_valid (importFromJSON P jsonString) \<longrightarrow>
     import_errors (importFromJSON P jsonString) = [] \<and>
     (\<exists>es. P jsonString = Inr (Arr es) \<and> import_data (importFromJSON P jsonString) = Some (Arr es))"
  by (auto simp: importFromJSON_def split: sum.splits jsval.splits prod.splits)

lemma import_defective:
  assumes p: "P jsonString = Inr (Arr es)"
    and d: "(\<exists>b \<in> set es. \<exists>f \<in> set requiredFields. \<not> truthy (field b f)) \<or>
      (\<exists>pre a mid b post. es = pre @ a # mid @ b # post \<and> truthy (field a ''id'') \<and>
          sameValueZero (field a ''id'') (field b ''id'')) \<or>
      (\<exists>b \<in> set es. truthy (field b ''pages'') \<and> parseInt (field b ''pages'') = None) \<or>
      (\<exists>b \<in> set es. truthy (field b ''date'') \<and>
          \<not> importDatePattern (toString (field b ''date'')))"
  shows "import_errors (importFromJSON P jsonString) \<noteq> []"
proof -
  have "snd (checkBooks 0 es [] []) \<or> fst (checkBooks 0 es [] []) \<noteq> []"
    using d
  proof (elim disjE bexE exE conjE)
    fix b f assume "b \<in> set es" "f \<in> set requiredFields" "\<not> truthy (field b f)"
    then show ?thesis using checkBooks_defect [of b es] bookErrors_missing [of f b] by blast
  next
    fix pre a mid b post
    assume "es = pre @ a # mid @ b # post" "truthy (field a ''id'')"
      "sameValueZero (field a ''id'') (field b ''id'')"
    then show ?thesis using checkBooks_duplicate [of a b] by blast
  next
    fix b assume b: "b \<in> set es" and "truthy (field b ''pages'')" "parseInt (field b ''pages'') = None"
    then have "\<forall>i ids. bookErrors i b ids \<noteq> []" by (simp add: bookErrors_def)
    with b show ?thesis using checkBooks_defect [of b es] by blast
  next
    fix b assume b: "b \<in> set es" and "truthy (field b ''date'')"
      "\<not> importDatePattern (toString (field b ''date''))"
    then have "\<forall>i ids. bookErrors i b ids \<noteq> []" by (simp add: bookErrors_def)
    with b show ?thesis using checkBooks_defect [of b es] by blast
  qed
  with p show ?thesis by (rule import_errors_of_array)
qed

text \<open>
  C5: whenever an error is collected, the result is not valid and carries no records,
  and a valid result has no error and carries the whole parsed array. An error is
  collected when the text does not parse, when the parsed value is not an array, and when
  the array has an element with a missing (or otherwise falsy) required field, two
  elements with the same truthy id, an element whose pages \<^verbatim>\<open>parseInt\<close> turns into
  NaN, or an element whose date does not match \<^verbatim>\<open>/^\d{4}-\d{2}-\d{2}$/\<close>.
\<close>

theorem importFromJSON_all_or_nothing:
  "(import_errors (importFromJSON P jsonString) \<noteq> [] \<longrightarrow>
      \<not> import_valid (importFromJSON P jsonString) \<and> import_data (importFromJSON P jsonString) = None) \<and>
   (import_valid (importFromJSON P jsonString) \<longrightarrow>
      import_errors (importFromJSON P jsonString) = [] \<and>
      (\<exists>es. P jsonString = Inr (Arr es) \<and> import_data (importFromJSON P jsonString) = Some (Arr es))) \<and>
   (\<forall>msg. P jsonString = Inl msg \<longrightarrow> import_errors (importFromJSON P jsonString) = [InvalidJSON msg]) \<and>
   (\<forall>v. P jsonString = Inr v \<and> (\<forall>es. v \<noteq> Arr es) \<longrightarrow>
      import_errors (importFromJSON P jsonString) = [NotAnArray]) \<and>
   (\<forall>es. P jsonString = Inr (Arr es) \<and>
      ((\<exists>b \<in> set es. \<exists>f \<in> set requiredFields. \<not> truthy (field b f)) \<or>
       (\<exists>pre a mid b post. es = pre @ a # mid @ b # post \<and> truthy (field a ''id'') \<and>
          sameValueZero (field a ''id'') (field b ''id'')) \<or>
       (\<exists>b \<in> set es. truthy (field b ''pages'') \<and> parseInt (field b ''pages'') = None) \<or>
       (\<exists>b \<in> set es. truthy (field b ''date'') \<and>
          \<not> importDatePattern (toString (field b ''date'')))) \<longrightarrow>
      import_errors (importFromJSON P jsonString) \<noteq> [])"
proof (intro conjI allI)
  show "import_errors (importFromJSON P jsonString) \<noteq> [] \<longrightarrow>
      \<not> import_valid (importFromJSON P jsonString) \<and> import_data (importFromJSON P jsonString) = None"
    by (rule import_rejects)
  show "import_valid (importFromJSON P jsonString) \<longrightarrow>
      import_errors (importFromJSON P jsonString) = [] \<and>
      (\<exists>es. P jsonString = Inr (Arr es) \<and> import_data (importFromJSON P jsonString) = Some (Arr es))"
    by (rule import_accepts)
  show "P jsonString = Inl msg \<longrightarrow> import_errors (importFromJSON P jsonString) = [InvalidJSON msg]" for msg
    by (simp add: importFromJSON_def)
  show "P jsonString = Inr v \<and> (\<forall>es. v \<noteq> Arr es) \<longrightarrow>
      import_errors (importFromJSON P jsonString) = [NotAnArray]" for v
    by (cases v) (simp_all add: importFromJSON_def)
  show "P jsonString = Inr (Arr es) \<and>
      ((\<exists>b \<in> set es. \<exists>f \<in> set requiredFields. \<not> truthy (field b f)) \<or>
       (\<exists>pre a mid b post. es = pre @ a # mid @ b # post \<and> truthy (field a ''id'') \<and>
          sameValueZero (field a ''id'') (field b ''id'')) \<or>
       (\<exists>b \<in> set es. truthy (field b ''pages'') \<and> parseInt (field b ''pages'') = None) \<or>
       (\<exists>b \<in> set es. truthy (field b ''date'') \<and>
          \<not> importDatePattern (toString (field b ''date'')))) \<longrightarrow>
      import_errors (importFromJSON P jsonString) \<noteq> []" for es
    using import_defective [of P jsonString es] by blast
qed

lemma hostParse_fiveBooks: "hostParse fiveBooksText = Inr (Arr (map Obj fiveBooks))"
  by code_simp

lemma fiveBooks_defect:
  "Obj (fiveBooks ! 3) \<in> set (map Obj fiveBooks)" "''date'' \<in> set requiredFields"
  "\<not> truthy (field (Obj (fiveBooks ! 3)) ''date'')"
  by (simp_all add: fiveBooks_def requiredFields_def field_def getProp_def emma_def)

theorem importFromJSON_all_or_nothing_witness:
  "hostParse fiveBooksText = Inr (Arr (map Obj fiveBooks)) \<and>
   Obj (fiveBooks ! 3) \<in> set (map Obj fiveBooks) \<and> ''date'' \<in> set requiredFields \<and>
   \<not> truthy (field (Obj (fiveBooks ! 3)) ''date'') \<and>
   import_errors (importFromJSON hostParse fiveBooksText) \<noteq> [] \<and>
   \<not> import_valid (importFromJSON hostParse fiveBooksText) \<and>
   import_data (importFromJSON hostParse fiveBooksText) = None"
proof -
  note t = importFromJSON_all_or_nothing [of hostParse fiveBooksText]
  have "import_errors (importFromJSON hostParse fiveBooksText) \<noteq> []"
    using t hostParse_fiveBooks fiveBooks_defect by blast
  moreover from this t have "\<not> import_valid (importFromJSON hostParse fiveBooksText) \<and>
   import_data (importFromJSON hostParse fiveBooksText) = None" by blast
  ultimately show ?thesis using hostParse_fiveBooks fiveBooks_defect by (intro conjI) simp_all
qed

subsection \<open>Import of an export\<close>














section \<open>Properties of the sorter\<close>

subsection \<open>Insertion sort with a comparator\<close>









subsection \<open>Consistent comparators\<close>






subsection \<open>sortBooks\<close>




lemma sortable_same_set:
  assumes "set recs = set recs'"
  shows "sortable g lc sortBy recs = sortable g lc sortBy recs'"
  using assms by (simp add: sortable_def list_all_iff)







section \<open>Properties of highlightMatches\<close>

lemma scan_beyond: "length s < i \<Longrightarrow> scan rx s i = []"
  by (subst scan.simps) simp

lemma scan_no_match:
  "\<not> length s < i \<Longrightarrow> matchAt rx s i = None \<Longrightarrow> scan rx s i = scan rx s (Suc i)"
  by (subst scan.simps) simp

lemma scan_match:
  "\<not> length s < i \<Longrightarrow> matchAt rx s i = Some n \<Longrightarrow>
   scan rx s i = (i, n) # scan rx s (if n = 0 then Suc i else i + n)"
  by (subst scan.simps) simp

lemma leftmostFrom_step:
  assumes "matchAt rx s i = None" and "leftmostFrom rx s (Suc i) ms"
  shows "leftmostFrom rx s i ms"
proof (cases ms)
  case Nil
  show ?thesis unfolding Nil leftmostFrom.simps
  proof (intro allI impI)
    fix j assume j: "i \<le> j \<and> j \<le> length s"
    show "matchAt rx s j = None"
    proof (cases "j = i")
      case True
      with assms(1) show ?thesis by simp
    next
      case False
      with j have "Suc i \<le> j \<and> j \<le> length s" by simp
      with assms(2) show ?thesis by (simp add: Nil)
    qed
  qed
next
  case (Cons m ms')
  obtain p n where m: "m = (p, n)" by (cases m)
  from assms(2) have a: "Suc i \<le> p" "p \<le> length s"
    "\<forall>j. Suc i \<le> j \<and> j < p \<longrightarrow> matchAt rx s j = None" "matchAt rx s p = Some n"
    "leftmostFrom rx s (if n = 0 then Suc p else p + n) ms'"
    by (simp_all add: Cons m)
  have "matchAt rx s j = None" if "i \<le> j \<and> j < p" for j
  proof (cases "j = i")
    case True
    with assms(1) show ?thesis by simp
  next
    case False
    with that have "Suc i \<le> j \<and> j < p" by simp
    with a(3) show ?thesis by simp
  qed
  with a show ?thesis by (simp add: Cons m)
qed

lemma scan_leftmost: "leftmostFrom rx s i (scan rx s i)"
proof (induction rx s i rule: scan.induct)
  case (1 rx s i)
  show ?case
  proof (cases "length s < i")
    case True
    then have "\<forall>j. i \<le> j \<and> j \<le> length s \<longrightarrow> matchAt rx s j = None" by auto
    with True show ?thesis by (simp add: scan_beyond)
  next
    case False
    show ?thesis
    proof (cases "matchAt rx s i")
      case None
      from "1.IH"(1) [OF False None] have "leftmostFrom rx s (Suc i) (scan rx s (Suc i))" .
      with None have "leftmostFrom rx s i (scan rx s (Suc i))" by (rule leftmostFrom_step)
      then show ?thesis by (simp add: scan_no_match [OF False None])
    next
      case (Some n)
      from "1.IH"(2) [OF False Some]
      have "leftmostFrom rx s (if n = 0 then Suc i else i + n)
              (scan rx s (if n = 0 then Suc i else i + n))" .
      moreover have "\<forall>j. i \<le> j \<and> j < i \<longrightarrow> matchAt rx s j = None" by auto
      ultimately show ?thesis using False Some by (simp add: scan_match [OF False Some])
    qed
  qed
qed

lemma rebuild_scan:
  "pos \<le> i \<Longrightarrow> rebuild mark s pos (take k (scan rx s i)) = wrapSpans s pos (take k (scan rx s i))"
proof (induction rx s i arbitrary: pos k rule: scan.induct)
  case (1 rx s i)
  show ?case
  proof (cases "length s < i")
    case True
    then show ?thesis by (simp add: scan_beyond)
  next
    case False
    show ?thesis
    proof (cases "matchAt rx s i")
      case None
      from "1.prems" have "pos \<le> Suc i" by simp
      from "1.IH"(1) [OF False None this] show ?thesis
        by (simp add: scan_no_match [OF False None])
    next
      case (Some n)
      show ?thesis
      proof (cases k)
        case 0
        then show ?thesis by simp
      next
        case (Suc k')
        have "i + n \<le> (if n = 0 then Suc i else i + n)" by simp
        from "1.IH"(2) [OF False Some this, of k'] "1.prems" show ?thesis
          by (simp add: scan_match [OF False Some] Suc)
      qed
    qed
  qed
qed

lemma replace_wraps: "replace rx mark s = wrapSpans s 0 (matches rx s)"
proof (cases "global rx")
  case True
  have "rebuild mark s 0 (take (length (scan rx s 0)) (scan rx s 0)) =
        wrapSpans s 0 (take (length (scan rx s 0)) (scan rx s 0))"
    by (rule rebuild_scan) simp
  with True show ?thesis by (simp add: replace_def matches_def)
next
  case False
  have "rebuild mark s 0 (take 1 (scan rx s 0)) = wrapSpans s 0 (take 1 (scan rx s 0))"
    by (rule rebuild_scan) simp
  with False show ?thesis by (simp add: replace_def matches_def)
qed

text \<open>
  C2 (as amended): without a matcher, and for the empty text, \<^verbatim>\<open>highlightMatches\<close>
  returns the text as it is, not escaped; when escaping fails it returns the original
  text; otherwise it escapes the text and wraps matches found in the escaped text: with
  a global matcher every match of the left-to-right non-overlapping sequence, with a
  matcher that is not global only the first of them.
\<close>

theorem highlightMatches_outcome:
  "(regex = None \<or> text = [] \<longrightarrow> highlightMatches innerHTML text regex = text) \<and>
   (escapeHtml innerHTML text = None \<longrightarrow> highlightMatches innerHTML text regex = text) \<and>
   (\<forall>rx escaped. regex = Some rx \<and> text \<noteq> [] \<and> escapeHtml innerHTML text = Some escaped \<longrightarrow>
      highlightMatches innerHTML text regex = wrapSpans escaped 0 (matches rx escaped) \<and>
      leftmostFrom rx escaped 0 (scan rx escaped 0) \<and>
      (global rx \<longrightarrow> matches rx escaped = scan rx escaped 0) \<and>
      (\<not> global rx \<longrightarrow> matches rx escaped = take 1 (scan rx escaped 0)))"
proof (intro conjI allI impI)
  assume "regex = None \<or> text = []"
  then show "highlightMatches innerHTML text regex = text"
    by (auto simp: highlightMatches_def split: option.splits)
next
  assume "escapeHtml innerHTML text = None"
  then show "highlightMatches innerHTML text regex = text"
    by (simp add: highlightMatches_def split: option.splits)
next
  fix rx escaped
  assume "regex = Some rx \<and> text \<noteq> [] \<and> escapeHtml innerHTML text = Some escaped"
  then show "highlightMatches innerHTML text regex = wrapSpans escaped 0 (matches rx escaped)"
    by (simp add: highlightMatches_def replace_wraps)
next
  fix rx escaped
  show "leftmostFrom rx escaped 0 (scan rx escaped 0)" by (rule scan_leftmost)
next
  fix rx :: regex and escaped
  assume "global rx"
  then show "matches rx escaped = scan rx escaped 0" by (simp add: matches_def)
next
  fix rx :: regex and escaped
  assume "\<not> global rx"
  then show "matches rx escaped = take 1 (scan rx escaped 0)" by (simp add: matches_def)
qed

lemma highlight_examples:
  "escapeHtml browserInnerHTML ''a<b & aa'' = Some ''a&lt;b &amp; aa''"
  "wrapSpans ''a&lt;b &amp; aa'' 0 (matches (literal ''a'' True) ''a&lt;b &amp; aa'') =
     ''<mark>a</mark>&lt;b &<mark>a</mark>mp; <mark>a</mark><mark>a</mark>''"
  "escapeHtml noDocument ''a<b & aa'' = None"
  by code_simp+

theorem highlightMatches_outcome_witness:
  "highlightMatches browserInnerHTML ''a<b & aa'' None = ''a<b & aa'' \<and>
   escapeHtml noDocument ''a<b & aa'' = None \<and>
   highlightMatches noDocument ''a<b & aa'' (Some (literal ''a'' True)) = ''a<b & aa'' \<and>
   ''a<b & aa'' \<noteq> [] \<and>
   escapeHtml browserInnerHTML ''a<b & aa'' = Some ''a&lt;b &amp; aa'' \<and>
   highlightMatches browserInnerHTML ''a<b & aa'' (Some (literal ''a'' True)) =
     ''<mark>a</mark>&lt;b &<mark>a</mark>mp; <mark>a</mark><mark>a</mark>''"
proof -
  from highlightMatches_outcome [of None "''a<b & aa''" browserInnerHTML]
  have 1: "highlightMatches browserInnerHTML ''a<b & aa'' None = ''a<b & aa''" by simp
  from highlightMatches_outcome [of "Some (literal ''a'' True)" "''a<b & aa''" noDocument]
    highlight_examples(3)
  have 2: "highlightMatches noDocument ''a<b & aa'' (Some (literal ''a'' True)) = ''a<b & aa''"
    by blast
  have ne: "''a<b & aa'' \<noteq> []" by simp
  from highlightMatches_outcome [of "Some (literal ''a'' True)" "''a<b & aa''" browserInnerHTML]
    highlight_examples(1) ne
  have "highlightMatches browserInnerHTML ''a<b & aa'' (Some (literal ''a'' True)) =
      wrapSpans ''a&lt;b &amp; aa'' 0 (matches (literal ''a'' True) ''a&lt;b &amp; aa'')"
    by blast
  then have 3: "highlightMatches browserInnerHTML ''a<b & aa'' (Some (literal ''a'' True)) =
     ''<mark>a</mark>&lt;b &<mark>a</mark>mp; <mark>a</mark><mark>a</mark>''"
    by (simp only: highlight_examples(2))
  from 1 2 3 ne highlight_examples(1,3) show ?thesis by (intro conjI)
qed

theorem highlightMatches_counterexample:
  "highlightMatches browserInnerHTML ''a<b'' None = ''a<b'' \<and>
   escapeHtml browserInnerHTML ''a<b'' = Some ''a&lt;b'' \<and>
   scan (literal ''a'' False) ''aa'' 0 = [(0, 1), (1, 1)] \<and>
   highlightMatches browserInnerHTML ''aa'' (Some (literal ''a'' False)) = ''<mark>a</mark>a''"
  by code_simp

end
